theory Spec2Isabelle
  imports Main "HOL-Library.Word"
begin

unbundle bit_operations_syntax

section \<open>Common types\<close>

type_synonym byte = "8 word"

text \<open>
  The error kinds that \<open>ty_error\<close> is called with in \<open>board.c\<close> and in the task runtime.
  A function of the source that returns a negative code through \<open>ty_error\<close> returns
  \<open>Inl\<close> of the kind here.
\<close>

datatype ty_err =
    TY_ERROR_MEMORY
  | TY_ERROR_PARAM
  | TY_ERROR_RANGE
  | TY_ERROR_MODE
  | TY_ERROR_NOT_FOUND
  | TY_ERROR_FIRMWARE
  | TY_ERROR_SYSTEM

text \<open>
  A \<open>const ty_board_model *\<close> that is not NULL. The five models of \<open>ty_board_models\<close>
  are the objects the signature table points to; a vendor driver may hand out other
  model objects, which are told apart by their address.
\<close>

datatype model_ref =
    Teensy_pp10
  | Teensy_20
  | Teensy_pp20
  | Teensy_30
  | Teensy_31
  | Other_model nat

text \<open>
  \<open>model_is_valid\<close>: \<open>model && model->code_size\<close>. The model objects are defined outside
  of \<open>board.c\<close>, so the \<open>code_size\<close> field is read through the parameter \<open>cs\<close>.
\<close>

definition model_is_valid :: "(model_ref \<Rightarrow> nat) \<Rightarrow> model_ref option \<Rightarrow> bool" where
  "model_is_valid cs model = (case model of None \<Rightarrow> False | Some m \<Rightarrow> cs m \<noteq> 0)"

section \<open>Model registry: firmware signatures\<close>

text \<open>
  \<open>ty_firmware\<close>: the image buffer and the number of bytes of it that are used.
\<close>

record ty_firmware =
  fw_image :: "byte list"
  fw_size :: nat

definition magic_size :: nat where
  "magic_size = 8"

definition signatures :: "(model_ref \<times> byte list) list" where
  "signatures =
    [(Teensy_pp10, [0x0C, 0x94, 0x00, 0x7E, 0xFF, 0xCF, 0xF8, 0x94]),
     (Teensy_20,   [0x0C, 0x94, 0x00, 0x3F, 0xFF, 0xCF, 0xF8, 0x94]),
     (Teensy_pp20, [0x0C, 0x94, 0x00, 0xFE, 0xFF, 0xCF, 0xF8, 0x94]),
     (Teensy_30,   [0x38, 0x80, 0x04, 0x40, 0x82, 0x3F, 0x04, 0x00]),
     (Teensy_31,   [0x30, 0x80, 0x04, 0x40, 0x82, 0x3F, 0x04, 0x00])]"

text \<open>The bytes \<open>memcmp(f->image + i, sig->magic, magic_size)\<close> reads from the image.\<close>

definition window :: "ty_firmware \<Rightarrow> nat \<Rightarrow> byte list" where
  "window f i = take magic_size (drop i (fw_image f))"

text \<open>The inner loop: the signatures in table order, the first equal one wins.\<close>

fun match_signature :: "byte list \<Rightarrow> (model_ref \<times> byte list) list \<Rightarrow> model_ref option" where
  "match_signature w [] = None"
| "match_signature w (sig # sigs) =
     (if w = snd sig then Some (fst sig) else match_signature w sigs)"

text \<open>The outer loop \<open>for (i = 0; i < f->size - magic_size; i++)\<close>, entered at \<open>i\<close>.\<close>

function scan_image :: "ty_firmware \<Rightarrow> nat \<Rightarrow> model_ref option" where
  "scan_image f i =
     (if i < fw_size f - magic_size then
        (case match_signature (window f i) signatures of
           Some m \<Rightarrow> Some m
         | None \<Rightarrow> scan_image f (i + 1))
      else None)"
  by pat_completeness auto
termination
  by (relation "measure (\<lambda>(f, i). fw_size f - magic_size - i)") auto

declare scan_image.simps [simp del]

definition ty_board_test_firmware :: "ty_firmware \<Rightarrow> model_ref option" where
  "ty_board_test_firmware f =
     (if fw_size f < magic_size then None else scan_image f 0)"

section \<open>Boards, interfaces and the board manager\<close>

datatype ty_board_state =
    TY_BOARD_STATE_DROPPED
  | TY_BOARD_STATE_MISSING
  | TY_BOARD_STATE_ONLINE

datatype ty_board_event =
    TY_BOARD_EVENT_ADDED
  | TY_BOARD_EVENT_CHANGED
  | TY_BOARD_EVENT_DISAPPEARED
  | TY_BOARD_EVENT_DROPPED

text \<open>
  What \<open>board.c\<close> reads from a \<open>ty_device\<close>: its address (the key of the interface
  table) and the results of \<open>ty_device_get_location\<close>, \<open>ty_device_get_vid\<close> and
  \<open>ty_device_get_pid\<close>.
\<close>

record ty_device =
  dev_ptr :: nat
  dev_location :: string
  dev_vid :: "16 word"
  dev_pid :: "16 word"

text \<open>
  \<open>ty_board_interface\<close>, as far as \<open>board.c\<close> reads it. The handle and the vtable
  belong to the vendor driver; a call through the vtable is a value of \<open>vtable_call\<close>
  below. Reference counts are left out: no function modelled here frees an interface
  that is still in use.
\<close>

record ty_board_interface =
  iface_dev :: ty_device
  iface_model :: "model_ref option"
  iface_serial :: "64 word"
  iface_capabilities :: int

text \<open>
  \<open>ty_board\<close>. \<open>board_missing\<close> is \<open>board->missing.prev != NULL\<close>: the board is linked
  in the manager's list of missing boards (the order of that list is only read by the
  drop timer). \<open>board_refcount\<close> counts the manager's reference and those of other
  holders.
\<close>

record ty_board =
  board_location :: string
  board_identity :: string
  board_serial :: "64 word"
  board_vid :: "16 word"
  board_pid :: "16 word"
  board_model :: "model_ref option"
  board_state :: ty_board_state
  board_interfaces :: "ty_board_interface list"
  board_cap2iface :: "ty_board_interface option list"
  board_capabilities :: int
  board_missing :: bool
  board_refcount :: "32 word"

text \<open>
  A registered callback: its id and the function with its \<open>udata\<close> applied. The function
  is given the board as it is at the call and the event; only its return value is
  modelled.
\<close>

record callback =
  cb_id :: int
  cb_f :: "ty_board \<Rightarrow> ty_board_event \<Rightarrow> int"

text \<open>
  \<open>ty_board_manager\<close>: the callback list in list order, the next callback id, the boards
  in list order and the interface table (newest first). \<open>m_trace\<close> records every callback
  invocation, in order: the callback id, the location of the board and the event.
\<close>

record ty_board_manager =
  m_callbacks :: "callback list"
  m_callback_id :: int
  m_boards :: "ty_board list"
  m_interfaces :: "ty_board_interface list"
  m_trace :: "(int \<times> string \<times> ty_board_event) list"

definition ty_board_manager_register_callback ::
    "ty_board_manager \<Rightarrow> (ty_board \<Rightarrow> ty_board_event \<Rightarrow> int) \<Rightarrow> int \<times> ty_board_manager" where
  "ty_board_manager_register_callback m f =
     (m_callback_id m,
      m\<lparr>m_callbacks := m_callbacks m @ [\<lparr>cb_id = m_callback_id m, cb_f = f\<rparr>],
        m_callback_id := m_callback_id m + 1\<rparr>)"

text \<open>
  The loop of \<open>trigger_callbacks\<close> over the callback list. \<open>ty_list_foreach\<close> reads the
  next node before the body runs, so \<open>drop_callback\<close> on the current node is safe (the
  source frees nodes inside such loops throughout). The result is the return value, the
  callbacks that stay in the list and the ids of the callbacks invoked, in order.
\<close>

fun run_callbacks ::
    "callback list \<Rightarrow> ty_board \<Rightarrow> ty_board_event \<Rightarrow> int \<times> callback list \<times> int list" where
  "run_callbacks [] board event = (0, [], [])"
| "run_callbacks (c # cs) board event =
     (let r = cb_f c board event in
      if r < 0 then (r, c # cs, [cb_id c])
      else
        (case run_callbacks cs board event of
           (r', cs', ids) \<Rightarrow> (r', (if r \<noteq> 0 then cs' else c # cs'), cb_id c # ids)))"

definition trigger_callbacks ::
    "ty_board_manager \<Rightarrow> ty_board \<Rightarrow> ty_board_event \<Rightarrow> int \<times> ty_board_manager" where
  "trigger_callbacks m board event =
     (case run_callbacks (m_callbacks m) board event of
        (r, cbs, ids) \<Rightarrow>
          (r, m\<lparr>m_callbacks := cbs,
                m_trace := m_trace m @ map (\<lambda>i. (i, board_location board, event)) ids\<rparr>))"

text \<open>The text \<open>printf\<close> writes for \<open>%PRIu64\<close>: the decimal digits, no leading zero.\<close>

definition digit_char :: "nat \<Rightarrow> char" where
  "digit_char d = ''0123456789'' ! d"

function decimal :: "nat \<Rightarrow> string" where
  "decimal n = (if n < 10 then [digit_char n] else decimal (n div 10) @ [digit_char (n mod 10)])"
  by pat_completeness auto
termination
  by (relation "measure id") auto

declare decimal.simps [simp del]

text \<open>
  \<open>add_board\<close>. \<open>fail\<close> is the failure of one of its allocations (\<open>calloc\<close>,
  \<open>ty_mutex_init\<close>, \<open>strdup\<close>, \<open>asprintf\<close>), if any: then the board is released and the
  error returned. Otherwise the board is appended to the manager's list; the result is
  its index. The state is what \<open>calloc\<close> left, the first enumerator.
\<close>

definition add_board ::
    "ty_board_manager \<Rightarrow> ty_board_interface \<Rightarrow> ty_err option \<Rightarrow> ty_err + (nat \<times> ty_board_manager)" where
  "add_board m iface fail =
     (case fail of
        Some e \<Rightarrow> Inl e
      | None \<Rightarrow>
          Inr (length (m_boards m),
               m\<lparr>m_boards := m_boards m @
                  [\<lparr>board_location = dev_location (iface_dev iface),
                    board_identity =
                      dev_location (iface_dev iface) @ ''#'' @ decimal (unat (iface_serial iface)),
                    board_serial = iface_serial iface,
                    board_vid = dev_vid (iface_dev iface),
                    board_pid = dev_pid (iface_dev iface),
                    board_model = iface_model iface,
                    board_state = TY_BOARD_STATE_DROPPED,
                    board_interfaces = [],
                    board_cap2iface = replicate 4 None,
                    board_capabilities = 0,
                    board_missing = False,
                    board_refcount = 1\<rparr>]\<rparr>))"

text \<open>
  \<open>close_board\<close> on the board at index \<open>i\<close>: its interfaces leave the interface table
  and the board; the result of the callbacks is ignored.
\<close>

definition close_board :: "ty_board_manager \<Rightarrow> nat \<Rightarrow> ty_board_manager" where
  "close_board m i =
     (let b = m_boards m ! i;
          b' = b\<lparr>board_state := TY_BOARD_STATE_MISSING,
                 board_interfaces := [],
                 board_cap2iface := replicate 4 None,
                 board_capabilities := 0\<rparr>;
          m' = m\<lparr>m_boards := (m_boards m)[i := b'],
                 m_interfaces := filter (\<lambda>x. x \<notin> set (board_interfaces b)) (m_interfaces m)\<rparr>
      in snd (trigger_callbacks m' b' TY_BOARD_EVENT_DISAPPEARED))"

text \<open>
  \<open>drop_board\<close> on the board at index \<open>i\<close>: the callbacks see the board in state
  dropped, then it is unlinked from the manager's list.
\<close>

definition drop_board :: "ty_board_manager \<Rightarrow> nat \<Rightarrow> ty_board_manager" where
  "drop_board m i =
     (let b = m_boards m ! i;
          b' = b\<lparr>board_state := TY_BOARD_STATE_DROPPED, board_missing := False\<rparr>;
          m' = snd (trigger_callbacks (m\<lparr>m_boards := (m_boards m)[i := b']\<rparr>) b'
                      TY_BOARD_EVENT_DROPPED)
      in m'\<lparr>m_boards := take i (m_boards m') @ drop (Suc i) (m_boards m')\<rparr>)"

text \<open>
  \<open>ty_board_unref\<close> on a board that \<open>drop_board\<close> has unlinked, as far as the manager
  sees it: when this was the last reference, the board is freed, and its interfaces
  leave the interface table and are released.
\<close>

definition ty_board_unref :: "ty_board_manager \<Rightarrow> ty_board \<Rightarrow> ty_board_manager" where
  "ty_board_unref m board =
     (if 1 < board_refcount board then m
      else m\<lparr>m_interfaces :=
               filter (\<lambda>x. x \<notin> set (board_interfaces board)) (m_interfaces m)\<rparr>)"

text \<open>\<open>find_board\<close>: the index of the first board at the location.\<close>

fun find_board :: "ty_board list \<Rightarrow> string \<Rightarrow> nat option" where
  "find_board [] location = None"
| "find_board (b # bs) location =
     (if board_location b = location then Some 0
      else map_option Suc (find_board bs location))"

text \<open>
  The test of \<open>add_interface\<close> that decides whether the board found at the location is
  another board than the one the interface belongs to.
\<close>

definition board_replaced ::
    "(model_ref \<Rightarrow> nat) \<Rightarrow> ty_board_interface \<Rightarrow> ty_board \<Rightarrow> bool" where
  "board_replaced cs iface board =
     ((model_is_valid cs (iface_model iface) \<and> model_is_valid cs (board_model board)
         \<and> iface_model iface \<noteq> board_model board)
      \<or> iface_serial iface \<noteq> board_serial board)"

text \<open>
  The end of \<open>add_interface\<close>, from \<open>iface->board = board\<close> on, for the board at index
  \<open>i\<close>: the interface is linked, the capabilities are routed to it, and the callbacks
  are triggered.
\<close>

definition link_interface ::
    "ty_board_manager \<Rightarrow> nat \<Rightarrow> ty_board_interface \<Rightarrow> ty_board_event \<Rightarrow> int \<times> ty_board_manager" where
  "link_interface m i iface event =
     (let b = m_boards m ! i;
          b' = b\<lparr>board_interfaces := board_interfaces b @ [iface],
                 board_cap2iface :=
                   map (\<lambda>(k, old). if bit (iface_capabilities iface) k then Some iface else old)
                     (enumerate 0 (board_cap2iface b)),
                 board_capabilities := board_capabilities b OR iface_capabilities iface,
                 board_missing := False,
                 board_state := TY_BOARD_STATE_ONLINE\<rparr>
      in trigger_callbacks
           (m\<lparr>m_boards := (m_boards m)[i := b'], m_interfaces := iface # m_interfaces m\<rparr>)
           b' event)"

text \<open>
  The block \<open>if (board) { ... }\<close> of \<open>add_interface\<close> that follows \<open>find_board\<close>:
  the found board is dropped, released and forgotten when \<open>board_replaced\<close> holds; otherwise
  it is closed when the vendor or product id changed, and kept. The result is the
  manager and the board that remains, if any.
\<close>

definition resolve_board ::
    "(model_ref \<Rightarrow> nat) \<Rightarrow> ty_board_manager \<Rightarrow> ty_device \<Rightarrow> ty_board_interface \<Rightarrow>
     ty_board_manager \<times> nat option" where
  "resolve_board cs m dev iface =
     (case find_board (m_boards m) (dev_location dev) of
        None \<Rightarrow> (m, None)
      | Some i \<Rightarrow>
          if board_replaced cs iface (m_boards m ! i)
          then (ty_board_unref (drop_board m i) (m_boards m ! i), None)
          else if board_vid (m_boards m ! i) \<noteq> dev_vid dev
                  \<or> board_pid (m_boards m ! i) \<noteq> dev_pid dev
          then
            (let mc = close_board m i in
             (mc\<lparr>m_boards := (m_boards mc)
                   [i := (m_boards mc ! i)\<lparr>board_vid := dev_vid dev, board_pid := dev_pid dev\<rparr>]\<rparr>,
              Some i))
          else (m, Some i))"

text \<open>The model and the serial number a kept board takes over from the interface.\<close>

definition upgrade_board ::
    "(model_ref \<Rightarrow> nat) \<Rightarrow> ty_board_interface \<Rightarrow> ty_board \<Rightarrow> ty_board" where
  "upgrade_board cs iface b =
     (let b1 = (if model_is_valid cs (iface_model iface)
                then b\<lparr>board_model := iface_model iface\<rparr> else b)
      in if iface_serial iface \<noteq> 0 then b1\<lparr>board_serial := iface_serial iface\<rparr> else b1)"

text \<open>
  \<open>add_interface\<close>. \<open>opened\<close> is the result of \<open>open_interface\<close> on the device (the
  vendor drivers are outside of \<open>board.c\<close>): an error, \<open>Inr None\<close> when no driver took
  the device (the function returns 0), or the interface. \<open>fail\<close> is passed to
  \<open>add_board\<close>.
\<close>

definition add_interface ::
    "(model_ref \<Rightarrow> nat) \<Rightarrow> ty_board_manager \<Rightarrow> ty_device \<Rightarrow>
     (ty_err + ty_board_interface option) \<Rightarrow> ty_err option \<Rightarrow> (ty_err + int) \<times> ty_board_manager" where
  "add_interface cs m dev opened fail =
     (case opened of
        Inl e \<Rightarrow> (Inl e, m)
      | Inr None \<Rightarrow> (Inr 0, m)
      | Inr (Some iface) \<Rightarrow>
          (case resolve_board cs m dev iface of
             (m1, Some i) \<Rightarrow>
               (case link_interface
                       (m1\<lparr>m_boards := (m_boards m1)[i := upgrade_board cs iface (m_boards m1 ! i)]\<rparr>)
                       i iface TY_BOARD_EVENT_CHANGED of
                  (r, m2) \<Rightarrow> (Inr r, m2))
           | (m1, None) \<Rightarrow>
               (case add_board m1 iface fail of
                  Inl e \<Rightarrow> (Inl e, m1)
                | Inr (i, m2) \<Rightarrow>
                    (case link_interface m2 i iface TY_BOARD_EVENT_ADDED of
                       (r, m3) \<Rightarrow> (Inr r, m3)))))"

text \<open>Values for the examples below.\<close>

definition example_code_size :: "model_ref \<Rightarrow> nat" where
  "example_code_size m =
     (case m of
        Teensy_pp10 \<Rightarrow> 64512
      | Teensy_20 \<Rightarrow> 32256
      | Teensy_pp20 \<Rightarrow> 130048
      | Teensy_30 \<Rightarrow> 131072
      | Teensy_31 \<Rightarrow> 262144
      | Other_model k \<Rightarrow> 0)"

definition example_board :: ty_board where
  "example_board =
     \<lparr>board_location = ''usb-1-2'', board_identity = ''usb-1-2#12345'', board_serial = 12345,
      board_vid = 0x16C0, board_pid = 0x483, board_model = Some Teensy_31,
      board_state = TY_BOARD_STATE_ONLINE, board_interfaces = [],
      board_cap2iface = replicate 4 None, board_capabilities = 0, board_missing = False,
      board_refcount = 1\<rparr>"

definition example_device :: ty_device where
  "example_device =
     \<lparr>dev_ptr = 1, dev_location = ''usb-1-2'', dev_vid = 0x16C0, dev_pid = 0x483\<rparr>"

definition failing_callback :: "ty_board \<Rightarrow> ty_board_event \<Rightarrow> int" where
  "failing_callback board event = - 1"

definition observer_callback :: "ty_board \<Rightarrow> ty_board_event \<Rightarrow> int" where
  "observer_callback board event = 0"

definition oneshot_callback :: "ty_board \<Rightarrow> ty_board_event \<Rightarrow> int" where
  "oneshot_callback board event = 1"

definition empty_manager :: ty_board_manager where
  "empty_manager =
     \<lparr>m_callbacks = [], m_callback_id = 0, m_boards = [], m_interfaces = [], m_trace = []\<rparr>"

text \<open>
  A manager with one observer registered and \<open>example_board\<close> online.
\<close>

definition example_manager :: ty_board_manager where
  "example_manager =
     \<lparr>m_callbacks = [\<lparr>cb_id = 0, cb_f = observer_callback\<rparr>], m_callback_id = 1,
      m_boards = [example_board], m_interfaces = [], m_trace = []\<rparr>"

text \<open>
  An interface of the device at the same location whose serial number could not be read
  (\<open>open_interface\<close> leaves 0): the bootloader of the same Teensy 3.1, with the upload
  and reset capabilities.
\<close>

definition example_iface_zero :: ty_board_interface where
  "example_iface_zero =
     \<lparr>iface_dev = example_device, iface_model = Some Teensy_31, iface_serial = 0,
      iface_capabilities = 3\<rparr>"

text \<open>The location and the identity of a board.\<close>

definition board_key :: "ty_board \<Rightarrow> string \<times> string" where
  "board_key b = (board_location b, board_identity b)"

text \<open>
  The location and the identity that \<open>add_board\<close> gives the board it makes from an
  interface: the location of the device, then \<open>#\<close>, then the serial number in decimal.
\<close>

definition formatted_identity :: "ty_board_interface \<Rightarrow> string \<times> string" where
  "formatted_identity iface =
     (dev_location (iface_dev iface),
      dev_location (iface_dev iface) @ ''#'' @ decimal (unat (iface_serial iface)))"

text \<open>
  The rule of the specification for replacing the board found at the location: a valid
  model different from the board's valid model, or a nonzero serial number different
  from the board's nonzero serial number.
\<close>

definition spec_board_replaced ::
    "(model_ref \<Rightarrow> nat) \<Rightarrow> ty_board_interface \<Rightarrow> ty_board \<Rightarrow> bool" where
  "spec_board_replaced cs iface board =
     ((model_is_valid cs (iface_model iface) \<and> model_is_valid cs (board_model board)
         \<and> iface_model iface \<noteq> board_model board)
      \<or> (iface_serial iface \<noteq> 0 \<and> board_serial board \<noteq> 0
           \<and> iface_serial iface \<noteq> board_serial board))"

section \<open>Board identity matching\<close>

text \<open>
  \<open>strtoull(nptr, &end, 10)\<close> of the C library, as ISO C specifies it: white space is
  skipped, one sign is accepted, then the decimal digits are read; a value that does
  not fit is \<open>ULLONG_MAX\<close>, a minus sign negates the value in the unsigned type. The
  result is the value and the offset of \<open>end\<close> from \<open>nptr\<close>, which is 0 when there
  is no digit to convert.
\<close>

definition is_space :: "char \<Rightarrow> bool" where
  "is_space c = (c \<in> set [CHR '' '', CHR 0x09, CHR 0x0A, CHR 0x0B, CHR 0x0C, CHR 0x0D])"

definition is_digit :: "char \<Rightarrow> bool" where
  "is_digit c = (c \<in> set ''0123456789'')"

definition digit_value :: "char \<Rightarrow> nat" where
  "digit_value c = of_char c - 48"

definition digits_value :: "string \<Rightarrow> nat" where
  "digits_value ds = foldl (\<lambda>a c. 10 * a + digit_value c) 0 ds"

definition strtoull :: "string \<Rightarrow> 64 word \<times> nat" where
  "strtoull nptr =
     (let s1 = dropWhile is_space nptr;
          signed = (s1 \<noteq> [] \<and> (hd s1 = CHR ''-'' \<or> hd s1 = CHR ''+''));
          neg = (s1 \<noteq> [] \<and> hd s1 = CHR ''-'');
          s2 = (if signed then tl s1 else s1);
          ds = takeWhile is_digit s2;
          n = digits_value ds
      in if ds = [] then (0, 0)
         else ((if 2 ^ 64 \<le> n then - 1 else if neg then - word_of_nat n else word_of_nat n),
               length nptr - length s2 + length ds))"

text \<open>\<open>strchr\<close>: the offset of the first occurrence of the character, if any.\<close>

definition strchr :: "string \<Rightarrow> char \<Rightarrow> nat option" where
  "strchr s c = (if c \<in> set s then Some (length (takeWhile (\<lambda>x. x \<noteq> c) s)) else None)"

text \<open>
  \<open>parse_identity\<close>. \<open>nomem\<close> says that \<open>strdup\<close> or \<open>strndup\<close> returns NULL. \<open>*end\<close>
  is not NUL exactly when \<open>end\<close> is before the end of the text.
\<close>

definition parse_identity :: "bool \<Rightarrow> string \<Rightarrow> ty_err + (string option \<times> 64 word)" where
  "parse_identity nomem ident =
     (let ptr = strchr ident CHR ''#'';
          location = (if ptr \<noteq> Some 0
                      then Some (case ptr of Some k \<Rightarrow> take k ident | None \<Rightarrow> ident)
                      else None)
      in if ptr \<noteq> Some 0 \<and> nomem then Inl TY_ERROR_MEMORY
         else
           (case ptr of
              None \<Rightarrow> Inr (location, 0)
            | Some k \<Rightarrow>
                (let text = drop (Suc k) ident in
                 case strtoull text of
                   (serial, end) \<Rightarrow>
                     if end = 0 \<or> end < length text then Inl TY_ERROR_PARAM
                     else Inr (location, serial))))"

text \<open>\<open>ty_board_matches_identity\<close>; \<open>None\<close> is the NULL pointer.\<close>

definition ty_board_matches_identity :: "bool \<Rightarrow> ty_board \<Rightarrow> string option \<Rightarrow> ty_err + int" where
  "ty_board_matches_identity nomem board ident =
     (case ident of
        None \<Rightarrow> Inr 1
      | Some s \<Rightarrow>
          if s = [] then Inr 1
          else
            (case parse_identity nomem s of
               Inl e \<Rightarrow> Inl e
             | Inr (location, serial) \<Rightarrow>
                 if (case location of Some l \<Rightarrow> l \<noteq> board_location board | None \<Rightarrow> False)
                 then Inr 0
                 else if serial \<noteq> 0 \<and> serial \<noteq> board_serial board then Inr 0
                 else Inr 1))"

section \<open>Capability operations\<close>

datatype ty_board_capability =
    TY_BOARD_CAPABILITY_UPLOAD
  | TY_BOARD_CAPABILITY_RESET
  | TY_BOARD_CAPABILITY_REBOOT
  | TY_BOARD_CAPABILITY_SERIAL

fun cap_index :: "ty_board_capability \<Rightarrow> nat" where
  "cap_index TY_BOARD_CAPABILITY_UPLOAD = 0"
| "cap_index TY_BOARD_CAPABILITY_RESET = 1"
| "cap_index TY_BOARD_CAPABILITY_REBOOT = 2"
| "cap_index TY_BOARD_CAPABILITY_SERIAL = 3"

text \<open>
  \<open>ty_board_get_interface\<close>: the entry of \<open>cap2iface\<close>, an array of four entries.
\<close>

definition ty_board_get_interface ::
    "ty_board \<Rightarrow> ty_board_capability \<Rightarrow> ty_board_interface option" where
  "ty_board_get_interface board cap =
     (if cap_index cap < length (board_cap2iface board)
      then board_cap2iface board ! cap_index cap else None)"

text \<open>
  A call through the vtable of an interface, with its arguments. A capability operation
  that reaches the vtable returns what this call returns; the transfer itself is the
  vendor driver's.
\<close>

datatype vtable_call =
    Vt_upload ty_board_interface ty_firmware int
  | Vt_serial_write ty_board_interface "byte list" nat

text \<open>
  \<open>strlen\<close> on the bytes that start at the pointer: the number of bytes before the
  first NUL.
\<close>

definition strlen :: "byte list \<Rightarrow> nat" where
  "strlen buf = length (takeWhile (\<lambda>b. b \<noteq> 0) buf)"

definition ty_board_serial_write ::
    "ty_board \<Rightarrow> byte list \<Rightarrow> nat \<Rightarrow> ty_err + vtable_call" where
  "ty_board_serial_write board buf sz =
     (case ty_board_get_interface board TY_BOARD_CAPABILITY_SERIAL of
        None \<Rightarrow> Inl TY_ERROR_MODE
      | Some iface \<Rightarrow> Inr (Vt_serial_write iface buf (if sz = 0 then strlen buf else sz)))"



text \<open>Boards and firmware images for the examples below.\<close>

definition serial_board :: ty_board where
  "serial_board =
     example_board\<lparr>board_cap2iface :=
       [None, None, None,
        Some \<lparr>iface_dev = example_device, iface_model = Some Teensy_31, iface_serial = 12345,
              iface_capabilities = 8\<rparr>],
       board_capabilities := 8\<rparr>"





section \<open>Tasks and the worker pool\<close>

datatype ty_task_status =
    TY_TASK_STATUS_READY
  | TY_TASK_STATUS_PENDING
  | TY_TASK_STATUS_RUNNING
  | TY_TASK_STATUS_FINISHED

text \<open>The value of the enumerator, which the comparisons of the source are made on.\<close>

fun status_rank :: "ty_task_status \<Rightarrow> nat" where
  "status_rank TY_TASK_STATUS_READY = 0"
| "status_rank TY_TASK_STATUS_PENDING = 1"
| "status_rank TY_TASK_STATUS_RUNNING = 2"
| "status_rank TY_TASK_STATUS_FINISHED = 3"

text \<open>
  What happens to a task, in order: its status is set by \<open>change_status\<close> (which also
  wakes the waiters and sends the status message), its status is assigned directly, its
  \<open>task_run\<close> function is called, its \<open>task_finalize\<close> function is called.
\<close>

datatype task_event =
    Status_changed ty_task_status
  | Status_assigned ty_task_status
  | Run_called
  | Finalize_called

text \<open>
  \<open>ty_task\<close>. \<open>task_ptr\<close> is the address of the task, under which the pending list of
  its pool holds it; \<open>task_finalize\<close> says that the function pointer is set.
  \<open>task_freed\<close> and \<open>task_log\<close> are not fields of the source: the first is set when
  \<open>ty_task_unref\<close> frees the task, the second records the events above.
\<close>

record ty_task =
  task_ptr :: nat
  task_status :: ty_task_status
  task_ret :: int
  task_finalize :: bool
  task_refcount :: "32 word"
  task_freed :: bool
  task_log :: "task_event list"

text \<open>
  \<open>ty_pool\<close>. \<open>pool_threads\<close> is the length of the list of thread structures,
  \<open>pool_pending_tasks\<close> the pending list, first node first. A task is linked through
  the one list node it has, so it is in the list at most once.
\<close>

record ty_pool =
  pool_unused_timeout :: int
  pool_max_threads :: "32 word"
  pool_threads :: nat
  pool_started :: "32 word"
  pool_busy :: "32 word"
  pool_pending_tasks :: "nat list"
  pool_init :: bool

text \<open>The pool and the task as \<open>ty_pool_new\<close> and \<open>ty_task_new\<close> make them.\<close>

definition ty_pool_new :: ty_pool where
  "ty_pool_new =
     \<lparr>pool_unused_timeout = 10000, pool_max_threads = 16, pool_threads = 0,
      pool_started = 0, pool_busy = 0, pool_pending_tasks = [], pool_init = True\<rparr>"

definition ty_task_new :: "nat \<Rightarrow> ty_task" where
  "ty_task_new ptr =
     \<lparr>task_ptr = ptr, task_status = TY_TASK_STATUS_READY, task_ret = 0,
      task_finalize = False, task_refcount = 1, task_freed = False, task_log = []\<rparr>"

definition ty_task_ref :: "ty_task \<Rightarrow> ty_task" where
  "ty_task_ref task = task\<lparr>task_refcount := task_refcount task + 1\<rparr>"

text \<open>
  \<open>ty_task_unref\<close> on a task that is not NULL: when the count reaches zero,
  \<open>task_finalize\<close> is called if it is set, and the task is freed. The cleanup
  functions of the result and of the user data, called before it, leave no trace here.
\<close>

definition ty_task_unref :: "ty_task \<Rightarrow> ty_task" where
  "ty_task_unref task =
     (let t1 = task\<lparr>task_refcount := task_refcount task - 1\<rparr> in
      if task_refcount t1 \<noteq> 0 then t1
      else
        (if task_finalize t1 then t1\<lparr>task_log := task_log t1 @ [Finalize_called]\<rparr> else t1)
          \<lparr>task_freed := True\<rparr>)"

definition change_status :: "ty_task \<Rightarrow> ty_task_status \<Rightarrow> ty_task" where
  "change_status task status =
     task\<lparr>task_status := status, task_log := task_log task @ [Status_changed status]\<rparr>"

text \<open>
  \<open>run_task\<close>; \<open>ret\<close> is what the \<open>task_run\<close> function returns. \<open>None\<close>: the
  assertion \<open>task->status <= TY_TASK_STATUS_PENDING\<close> fails.
\<close>

definition run_task :: "ty_task \<Rightarrow> int \<Rightarrow> ty_task option" where
  "run_task task ret =
     (if status_rank (task_status task) \<le> status_rank TY_TASK_STATUS_PENDING then
        (let t1 = change_status task TY_TASK_STATUS_RUNNING;
             t2 = t1\<lparr>task_ret := ret, task_log := task_log t1 @ [Run_called]\<rparr>;
             t3 = (if task_finalize t2
                   then t2\<lparr>task_finalize := False, task_log := task_log t2 @ [Finalize_called]\<rparr>
                   else t2)
         in Some (change_status t3 TY_TASK_STATUS_FINISHED))
      else None)"

text \<open>
  \<open>start_thread\<close>; \<open>spawn\<close> is the failure of \<open>calloc\<close> or of \<open>ty_thread_create\<close>,
  if any.
\<close>

definition start_thread :: "ty_pool \<Rightarrow> ty_err option \<Rightarrow> ty_err + ty_pool" where
  "start_thread pool spawn =
     (case spawn of
        Some e \<Rightarrow> Inl e
      | None \<Rightarrow>
          Inr (pool\<lparr>pool_threads := pool_threads pool + 1,
                    pool_started := pool_started pool + 1,
                    pool_busy := pool_busy pool + 1\<rparr>))"

text \<open>
  How a call on a task ends: it returns a result, with the pool and the task as they
  are then; or it sleeps in the loop of \<open>ty_task_wait\<close> with no time limit until
  another thread changes the status; or an assertion fails.
\<close>

datatype outcome =
    Returns "ty_err + int" ty_pool ty_task
  | Blocks ty_pool ty_task
  | Aborts

text \<open>
  \<open>ty_task_start\<close> on a task whose pool is set. \<open>ty_list_add\<close> links the task behind
  the head of the pending list.
\<close>

definition ty_task_start :: "ty_pool \<Rightarrow> ty_task \<Rightarrow> ty_err option \<Rightarrow> outcome" where
  "ty_task_start pool task spawn =
     (if task_status task \<noteq> TY_TASK_STATUS_READY then Aborts
      else
        (case (if pool_busy pool = pool_started pool \<and> pool_started pool < pool_max_threads pool
               then start_thread pool spawn else Inr pool) of
           Inl e \<Rightarrow> Returns (Inl e) pool task
         | Inr pool1 \<Rightarrow>
             Returns (Inr 0)
               (pool1\<lparr>pool_pending_tasks := task_ptr task # pool_pending_tasks pool1\<rparr>)
               (change_status (ty_task_ref task) TY_TASK_STATUS_PENDING)))"

text \<open>
  The loop at the end of \<open>ty_task_wait\<close>, when no other thread runs: it is left at
  once when the status has reached the target, after the time limit otherwise, and not
  at all when there is no time limit.
\<close>

definition wait_for_status :: "ty_pool \<Rightarrow> ty_task \<Rightarrow> ty_task_status \<Rightarrow> int \<Rightarrow> outcome" where
  "wait_for_status pool task status timeout =
     (if status_rank status \<le> status_rank (task_status task) then Returns (Inr 1) pool task
      else if timeout < 0 then Blocks pool task
      else Returns (Inr 0) pool task)"

text \<open>
  \<open>ty_task_wait\<close>. A task that \<open>ty_task_unref\<close> frees in the first branch is used
  after that by the source, and so it is here, with the fields as the free left them.
\<close>

definition ty_task_wait ::
    "ty_pool \<Rightarrow> ty_task \<Rightarrow> ty_task_status \<Rightarrow> int \<Rightarrow> ty_err option \<Rightarrow> int \<Rightarrow> outcome" where
  "ty_task_wait pool task status timeout spawn ret =
     (if status = TY_TASK_STATUS_READY then Aborts
      else if status = TY_TASK_STATUS_FINISHED \<and> timeout < 0 then
        (let (pool1, t1) =
               (if task_status task = TY_TASK_STATUS_PENDING then
                  (pool\<lparr>pool_pending_tasks := removeAll (task_ptr task) (pool_pending_tasks pool)\<rparr>,
                   (let u = ty_task_unref task in
                    u\<lparr>task_status := TY_TASK_STATUS_READY,
                      task_log := task_log u @ [Status_assigned TY_TASK_STATUS_READY]\<rparr>))
                else (pool, task))
         in if task_status t1 = TY_TASK_STATUS_READY then
              (case run_task t1 ret of
                 Some t2 \<Rightarrow> Returns (Inr 1) pool1 t2
               | None \<Rightarrow> Aborts)
            else wait_for_status pool1 t1 status timeout)
      else if task_status task = TY_TASK_STATUS_READY then
        (case ty_task_start pool task spawn of
           Returns (Inl e) pool1 t1 \<Rightarrow> Returns (Inl e) pool1 t1
         | Returns (Inr r) pool1 t1 \<Rightarrow> wait_for_status pool1 t1 status timeout
         | Blocks pool1 t1 \<Rightarrow> Blocks pool1 t1
         | Aborts \<Rightarrow> Aborts)
      else wait_for_status pool task status timeout)"

text \<open>
  One turn of the loop of \<open>task_thread\<close>, seen from one task: the worker leaves when
  the pool shrinks or when the pending list is still empty after the idle time;
  otherwise it takes the first pending task, and when that is the task at hand, runs it
  and releases the reference of the list.
\<close>

definition thread_exit :: "ty_pool \<Rightarrow> ty_pool" where
  "thread_exit pool =
     pool\<lparr>pool_started := pool_started pool - 1,
          pool_threads := (if pool_init pool then pool_threads pool - 1 else pool_threads pool)\<rparr>"

definition task_thread_step :: "ty_pool \<Rightarrow> ty_task \<Rightarrow> int \<Rightarrow> (ty_pool \<times> ty_task) option" where
  "task_thread_step pool task ret =
     (let p1 = pool\<lparr>pool_busy := pool_busy pool - 1\<rparr> in
      if pool_started p1 > pool_max_threads p1 then Some (thread_exit p1, task)
      else
        (case pool_pending_tasks p1 of
           [] \<Rightarrow> Some (thread_exit p1, task)
         | q # qs \<Rightarrow>
             (let p2 = p1\<lparr>pool_pending_tasks := qs, pool_busy := pool_busy p1 + 1\<rparr> in
              if q = task_ptr task then
                (case run_task task ret of
                   None \<Rightarrow> None
                 | Some t1 \<Rightarrow> Some (p2, ty_task_unref t1))
              else Some (p2, task))))"

text \<open>
  \<open>ty_pool_free\<close> up to the point where the workers are joined, seen from one task: a
  pending task loses the reference of the list.
\<close>

definition ty_pool_free :: "ty_pool \<Rightarrow> ty_task \<Rightarrow> ty_pool \<times> ty_task" where
  "ty_pool_free pool task =
     (if pool_init pool then
        (pool\<lparr>pool_pending_tasks := [], pool_max_threads := 0, pool_init := False\<rparr>,
         if task_ptr task \<in> set (pool_pending_tasks pool) then ty_task_unref task else task)
      else (pool, task))"

text \<open>
  The loop of \<open>ty_pool_set_max_threads\<close> over the pending list. \<open>spawn k\<close> is the
  failure, if any, of the call of \<open>start_thread\<close> number \<open>k\<close>. The result is
  \<open>Some r\<close> when the loop is left through \<open>goto cleanup\<close> with \<open>r\<close>.
\<close>

fun spawn_loop ::
    "nat list \<Rightarrow> nat \<Rightarrow> (nat \<Rightarrow> ty_err option) \<Rightarrow> 32 word \<Rightarrow> ty_pool \<Rightarrow>
     (ty_err + int) option \<times> ty_pool" where
  "spawn_loop [] k spawn mx pool = (None, pool)"
| "spawn_loop (q # qs) k spawn mx pool =
     (if pool_started pool \<ge> mx then (None, pool)
      else
        (case start_thread pool (spawn k) of
           Inl e \<Rightarrow> (Some (if pool_started pool \<noteq> 0 then Inr 0 else Inl e), pool)
         | Inr pool1 \<Rightarrow> spawn_loop qs (k + 1) spawn mx pool1))"

definition ty_pool_set_max_threads ::
    "ty_pool \<Rightarrow> 32 word \<Rightarrow> (nat \<Rightarrow> ty_err option) \<Rightarrow> (ty_err + int) \<times> ty_pool" where
  "ty_pool_set_max_threads pool mx spawn =
     (if mx > pool_max_threads pool then
        (case spawn_loop (pool_pending_tasks pool) 0 spawn mx pool of
           (Some r, pool1) \<Rightarrow> (r, pool1)
         | (None, pool1) \<Rightarrow> (Inr 0, pool1\<lparr>pool_max_threads := mx\<rparr>))
      else (Inr 0, pool\<lparr>pool_max_threads := mx\<rparr>))"

text \<open>
  The calls that act on one task, and a sequence of them run one after the other. A
  call on a freed task, and a call in which an assertion fails, end the run; a call
  that sleeps leaves the pool and the task as they are when it goes to sleep.
\<close>

datatype task_op =
    Op_ref
  | Op_unref
  | Op_start "ty_err option"
  | Op_wait ty_task_status int "ty_err option" int
  | Op_worker int
  | Op_pool_free

fun after :: "outcome \<Rightarrow> (ty_pool \<times> ty_task) option" where
  "after (Returns r pool task) = Some (pool, task)"
| "after (Blocks pool task) = Some (pool, task)"
| "after Aborts = None"

fun exec_op :: "task_op \<Rightarrow> ty_pool \<times> ty_task \<Rightarrow> (ty_pool \<times> ty_task) option" where
  "exec_op opn (pool, task) =
     (if task_freed task then None
      else
        (case opn of
           Op_ref \<Rightarrow> Some (pool, ty_task_ref task)
         | Op_unref \<Rightarrow> Some (pool, ty_task_unref task)
         | Op_start spawn \<Rightarrow> after (ty_task_start pool task spawn)
         | Op_wait status timeout spawn ret \<Rightarrow> after (ty_task_wait pool task status timeout spawn ret)
         | Op_worker ret \<Rightarrow> task_thread_step pool task ret
         | Op_pool_free \<Rightarrow> Some (ty_pool_free pool task)))"

fun exec_ops :: "task_op list \<Rightarrow> ty_pool \<times> ty_task \<Rightarrow> (ty_pool \<times> ty_task) option" where
  "exec_ops [] s = Some s"
| "exec_ops (opn # ops) s =
     (case exec_op opn s of None \<Rightarrow> None | Some s' \<Rightarrow> exec_ops ops s')"

text \<open>
  The status of a task after the events of a log, and the test that every
  \<open>change_status\<close> of the log sets a status above the one before, and that every
  direct assignment sets a pending task back to ready.
\<close>

fun log_status :: "ty_task_status \<Rightarrow> task_event list \<Rightarrow> ty_task_status" where
  "log_status cur [] = cur"
| "log_status cur (Status_changed s # es) = log_status s es"
| "log_status cur (Status_assigned s # es) = log_status s es"
| "log_status cur (Run_called # es) = log_status cur es"
| "log_status cur (Finalize_called # es) = log_status cur es"

fun status_trace_ok :: "ty_task_status \<Rightarrow> task_event list \<Rightarrow> bool" where
  "status_trace_ok cur [] = True"
| "status_trace_ok cur (Status_changed s # es) =
     (status_rank cur < status_rank s \<and> status_trace_ok s es)"
| "status_trace_ok cur (Status_assigned s # es) =
     (cur = TY_TASK_STATUS_PENDING \<and> s = TY_TASK_STATUS_READY \<and> status_trace_ok s es)"
| "status_trace_ok cur (Run_called # es) = status_trace_ok cur es"
| "status_trace_ok cur (Finalize_called # es) = status_trace_ok cur es"

text \<open>The values the status takes, from the first one on.\<close>

fun status_history :: "ty_task_status \<Rightarrow> task_event list \<Rightarrow> ty_task_status list" where
  "status_history cur [] = [cur]"
| "status_history cur (Status_changed s # es) = cur # status_history s es"
| "status_history cur (Status_assigned s # es) = cur # status_history s es"
| "status_history cur (Run_called # es) = status_history cur es"
| "status_history cur (Finalize_called # es) = status_history cur es"

text \<open>
  The two invariants of a task that starts ready with an empty log. The status follows
  the log, and the log passes \<open>status_trace_ok\<close>. The finalize function is still
  set and has not been called on a live task that has not run; it is set and has been
  called once on a task that was freed without having run; it is cleared and has been
  called once on a task that has run.
\<close>

definition status_inv :: "ty_task \<Rightarrow> bool" where
  "status_inv task =
     (status_trace_ok TY_TASK_STATUS_READY (task_log task)
      \<and> task_status task = log_status TY_TASK_STATUS_READY (task_log task))"

definition finalize_inv :: "ty_task \<Rightarrow> bool" where
  "finalize_inv task =
     ((task_finalize task \<and> Run_called \<notin> set (task_log task)
         \<and> count_list (task_log task) Finalize_called = (if task_freed task then 1 else 0))
      \<or> (\<not> task_finalize task \<and> count_list (task_log task) Finalize_called = 1))"



text \<open>
  A pool whose only worker is busy, and a task with a finalize function that has not
  been started.
\<close>

definition busy_pool :: ty_pool where
  "busy_pool = ty_pool_new\<lparr>pool_threads := 1, pool_started := 1, pool_busy := 1\<rparr>"

definition fresh_task :: ty_task where
  "fresh_task = (ty_task_new 1)\<lparr>task_finalize := True\<rparr>"

section \<open>Properties of the signature scan\<close>

lemma scan_image_none_iff:
  "scan_image f i = None \<longleftrightarrow>
     (\<forall>j. i \<le> j \<and> j < fw_size f - magic_size \<longrightarrow> match_signature (window f j) signatures = None)"
proof (induction f i rule: scan_image.induct)
  case (1 f i)
  show ?case
  proof (cases "i < fw_size f - magic_size")
    case False
    then show ?thesis by (auto simp: scan_image.simps [of f i])
  next
    case True
    show ?thesis
    proof (cases "match_signature (window f i) signatures")
      case (Some m)
      with True show ?thesis
        by (auto simp: scan_image.simps [of f i])
    next
      case None
      have step: "scan_image f i = scan_image f (i + 1)"
        using True None by (simp add: scan_image.simps [of f i])
      have ih: "scan_image f (i + 1) = None \<longleftrightarrow>
          (\<forall>j. i + 1 \<le> j \<and> j < fw_size f - magic_size \<longrightarrow>
             match_signature (window f j) signatures = None)"
        using "1.IH" [OF True None] .
      show ?thesis
      proof
        assume "scan_image f i = None"
        with step ih have a: "\<forall>j. i + 1 \<le> j \<and> j < fw_size f - magic_size \<longrightarrow>
             match_signature (window f j) signatures = None" by simp
        show "\<forall>j. i \<le> j \<and> j < fw_size f - magic_size \<longrightarrow>
             match_signature (window f j) signatures = None"
        proof (intro allI impI)
          fix j assume j: "i \<le> j \<and> j < fw_size f - magic_size"
          show "match_signature (window f j) signatures = None"
          proof (cases "j = i")
            case True
            with None show ?thesis by simp
          next
            case False
            with j have "i + 1 \<le> j" by simp
            with a j show ?thesis by blast
          qed
        qed
      next
        assume b: "\<forall>j. i \<le> j \<and> j < fw_size f - magic_size \<longrightarrow>
             match_signature (window f j) signatures = None"
        then have "\<forall>j. i + 1 \<le> j \<and> j < fw_size f - magic_size \<longrightarrow>
             match_signature (window f j) signatures = None" by simp
        with step ih show "scan_image f i = None" by simp
      qed
    qed
  qed
qed

lemma scan_image_some:
  "scan_image f i = Some m \<Longrightarrow>
     \<exists>j. i \<le> j \<and> j < fw_size f - magic_size \<and>
         match_signature (window f j) signatures = Some m \<and>
         (\<forall>k. i \<le> k \<and> k < j \<longrightarrow> match_signature (window f k) signatures = None)"
proof (induction f i rule: scan_image.induct)
  case (1 f i)
  show ?case
  proof (cases "i < fw_size f - magic_size")
    case False
    with "1.prems" show ?thesis by (simp add: scan_image.simps [of f i])
  next
    case True
    show ?thesis
    proof (cases "match_signature (window f i) signatures")
      case (Some m')
      with True "1.prems" have "m' = m" by (simp add: scan_image.simps [of f i])
      with Some True show ?thesis by (intro exI [of _ i]) auto
    next
      case None
      with True "1.prems" have "scan_image f (i + 1) = Some m"
        by (simp add: scan_image.simps [of f i])
      from "1.IH" [OF True None this] obtain j where
        j: "i + 1 \<le> j" "j < fw_size f - magic_size"
           "match_signature (window f j) signatures = Some m"
           "\<forall>k. i + 1 \<le> k \<and> k < j \<longrightarrow> match_signature (window f k) signatures = None"
        by blast
      have "\<forall>k. i \<le> k \<and> k < j \<longrightarrow> match_signature (window f k) signatures = None"
      proof (intro allI impI)
        fix k assume k: "i \<le> k \<and> k < j"
        show "match_signature (window f k) signatures = None"
        proof (cases "k = i")
          case True
          with None show ?thesis by simp
        next
          case False
          with k have "i + 1 \<le> k" by simp
          with j(4) k show ?thesis by blast
        qed
      qed
      with j show ?thesis by (intro exI [of _ j]) simp
    qed
  qed
qed

text \<open>
  The scan examines the offsets \<open>0, ..., size - 9\<close> and no other: the result is the hit
  at the least such offset, and it is none exactly when none of these offsets hits.
\<close>

lemma test_firmware_offsets:
  "ty_board_test_firmware f = None \<longleftrightarrow>
     (\<forall>j. j + magic_size < fw_size f \<longrightarrow> match_signature (window f j) signatures = None)"
proof (cases "fw_size f < magic_size")
  case True
  then show ?thesis by (simp add: ty_board_test_firmware_def)
next
  case False
  have "\<And>j. (j < fw_size f - magic_size) = (j + magic_size < fw_size f)" by auto
  with False show ?thesis
    by (simp add: ty_board_test_firmware_def scan_image_none_iff)
qed

lemma test_firmware_short:
  "fw_size f < 8 \<Longrightarrow> ty_board_test_firmware f = None"
  by (simp add: ty_board_test_firmware_def magic_size_def)

text \<open>
  A hit is the first signature of the table that equals the window, at the least
  offset that has one.
\<close>

lemma match_signature_first:
  "match_signature w sigs = Some m \<Longrightarrow>
     \<exists>pre post. sigs = pre @ (m, w) # post \<and> w \<notin> snd ` set pre"
proof (induction sigs)
  case Nil
  then show ?case by simp
next
  case (Cons sg sigs)
  show ?case
  proof (cases "w = snd sg")
    case True
    with Cons.prems have "sg = (m, w)" by (cases sg) simp
    then have "sg # sigs = [] @ (m, w) # sigs \<and> w \<notin> snd ` set []" by simp
    then show ?thesis by blast
  next
    case False
    with Cons obtain pre post where p: "sigs = pre @ (m, w) # post" "w \<notin> snd ` set pre"
      by auto
    with False have "sg # sigs = (sg # pre) @ (m, w) # post \<and> w \<notin> snd ` set (sg # pre)"
      by simp
    then show ?thesis by blast
  qed
qed

lemma test_firmware_first_hit:
  assumes "ty_board_test_firmware f = Some m"
  shows "\<exists>j. j + magic_size < fw_size f
           \<and> match_signature (window f j) signatures = Some m
           \<and> (\<forall>k<j. match_signature (window f k) signatures = None)"
proof -
  from assms have "scan_image f 0 = Some m"
    by (simp add: ty_board_test_firmware_def split: if_splits)
  from scan_image_some [OF this] obtain j where
    j: "j < fw_size f - magic_size" "match_signature (window f j) signatures = Some m"
       "\<forall>k. 0 \<le> k \<and> k < j \<longrightarrow> match_signature (window f k) signatures = None"
    by blast
  from j(1) have "j + magic_size < fw_size f" by simp
  with j(2,3) show ?thesis by auto
qed

text \<open>
  C2. The specification has it that every offset from 0 through \<open>len - 8\<close>
  inclusive is examined, so that an 8-byte image equal to a signature is detected. The
  loop bound
  \<open>i < f->size - magic_size\<close> leaves the offset \<open>len - 8\<close> out: the image that is exactly
  the signature of the Teensy 2.0 is not recognised.
\<close>

theorem test_firmware_exact_signature_missed:
  "ty_board_test_firmware
     \<lparr>fw_image = [0x0C, 0x94, 0x00, 0x3F, 0xFF, 0xCF, 0xF8, 0x94], fw_size = 8\<rparr> = None"
  by (simp add: ty_board_test_firmware_def magic_size_def scan_image.simps)

section \<open>Callback delivery\<close>

lemma run_callbacks_char:
  "run_callbacks cbs b e =
     (case dropWhile (\<lambda>c. 0 \<le> cb_f c b e) cbs of
        [] \<Rightarrow> (0, filter (\<lambda>c. cb_f c b e = 0) cbs, map cb_id cbs)
      | c # post \<Rightarrow>
          (cb_f c b e,
           filter (\<lambda>c. cb_f c b e = 0) (takeWhile (\<lambda>c. 0 \<le> cb_f c b e) cbs) @ c # post,
           map cb_id (takeWhile (\<lambda>c. 0 \<le> cb_f c b e) cbs) @ [cb_id c]))"
proof (induction cbs)
  case Nil
  show ?case by simp
next
  case (Cons c cs)
  show ?case
  proof (cases "cb_f c b e < 0")
    case True
    then show ?thesis by (simp add: Let_def)
  next
    case False
    show ?thesis
    proof (cases "dropWhile (\<lambda>c. 0 \<le> cb_f c b e) cs")
      case Nil
      with Cons False show ?thesis by (simp add: Let_def del: dropWhile_eq_Nil_conv)
    next
      case (Cons d post)
      with Cons.IH False show ?thesis by (simp add: Let_def)
    qed
  qed
qed

text \<open>
  Registration appends to the callback list and hands out increasing ids, so the list
  order is the order of registration.
\<close>

lemma register_callback_order:
  "ty_board_manager_register_callback m f = (i, m') \<Longrightarrow>
     i = m_callback_id m
     \<and> map cb_id (m_callbacks m') = map cb_id (m_callbacks m) @ [i]
     \<and> m_callback_id m' = i + 1"
  by (auto simp: ty_board_manager_register_callback_def)

text \<open>
  C3, as the code has it. The callbacks are invoked in list order, which is the order
  of registration. Delivery stops at the first callback that returns a negative value:
  that value is returned, and this callback and all later ones stay registered. Of the
  callbacks invoked before it (all of them when none returns a negative value), those
  that returned a positive value are removed and those that returned 0 stay.
\<close>

theorem trigger_callbacks_delivery:
  "trigger_callbacks m board event =
     (case dropWhile (\<lambda>c. 0 \<le> cb_f c board event) (m_callbacks m) of
        [] \<Rightarrow>
          (0, m\<lparr>m_callbacks := filter (\<lambda>c. cb_f c board event = 0) (m_callbacks m),
                m_trace := m_trace m @
                  map (\<lambda>c. (cb_id c, board_location board, event)) (m_callbacks m)\<rparr>)
      | c # rest \<Rightarrow>
          (cb_f c board event,
           m\<lparr>m_callbacks :=
               filter (\<lambda>c. cb_f c board event = 0)
                 (takeWhile (\<lambda>c. 0 \<le> cb_f c board event) (m_callbacks m)) @ c # rest,
             m_trace := m_trace m @
               map (\<lambda>c. (cb_id c, board_location board, event))
                 (takeWhile (\<lambda>c. 0 \<le> cb_f c board event) (m_callbacks m) @ [c])\<rparr>))"
proof (cases "dropWhile (\<lambda>c. 0 \<le> cb_f c board event) (m_callbacks m)")
  case Nil
  then show ?thesis
    by (simp add: trigger_callbacks_def run_callbacks_char comp_def del: dropWhile_eq_Nil_conv)
next
  case (Cons c rest)
  then show ?thesis
    by (simp add: trigger_callbacks_def run_callbacks_char comp_def)
qed

theorem trigger_callbacks_delivery_witness:
  "trigger_callbacks
     (empty_manager\<lparr>m_callbacks := [\<lparr>cb_id = 0, cb_f = observer_callback\<rparr>,
                                      \<lparr>cb_id = 1, cb_f = oneshot_callback\<rparr>,
                                      \<lparr>cb_id = 2, cb_f = failing_callback\<rparr>,
                                      \<lparr>cb_id = 3, cb_f = oneshot_callback\<rparr>]\<rparr>)
     example_board TY_BOARD_EVENT_CHANGED =
   (- 1,
    empty_manager\<lparr>m_callbacks := [\<lparr>cb_id = 0, cb_f = observer_callback\<rparr>,
                                     \<lparr>cb_id = 2, cb_f = failing_callback\<rparr>,
                                     \<lparr>cb_id = 3, cb_f = oneshot_callback\<rparr>],
                  m_trace := [(0, ''usb-1-2'', TY_BOARD_EVENT_CHANGED),
                              (1, ''usb-1-2'', TY_BOARD_EVENT_CHANGED),
                              (2, ''usb-1-2'', TY_BOARD_EVENT_CHANGED)]\<rparr>)"
  using trigger_callbacks_delivery [of
     "empty_manager\<lparr>m_callbacks := [\<lparr>cb_id = 0, cb_f = observer_callback\<rparr>,
                                      \<lparr>cb_id = 1, cb_f = oneshot_callback\<rparr>,
                                      \<lparr>cb_id = 2, cb_f = failing_callback\<rparr>,
                                      \<lparr>cb_id = 3, cb_f = oneshot_callback\<rparr>]\<rparr>"
     example_board TY_BOARD_EVENT_CHANGED]
  by (simp add: empty_manager_def example_board_def observer_callback_def oneshot_callback_def
        failing_callback_def)

text \<open>
  C3 as stated fails: a callback that returns a negative value, which is not zero, is
  still registered after the delivery.
\<close>

theorem negative_callback_stays_registered:
  "cb_f \<lparr>cb_id = 0, cb_f = failing_callback\<rparr> example_board TY_BOARD_EVENT_CHANGED \<noteq> 0 \<and>
   map cb_id (m_callbacks (snd (trigger_callbacks
      (empty_manager\<lparr>m_callbacks := [\<lparr>cb_id = 0, cb_f = failing_callback\<rparr>], m_callback_id := 1\<rparr>)
      example_board TY_BOARD_EVENT_CHANGED))) = [0]"
  by (simp add: trigger_callbacks_def failing_callback_def empty_manager_def)

section \<open>Board identity and the replacement of boards\<close>

lemma trigger_callbacks_boards [simp]:
  "m_boards (snd (trigger_callbacks m b e)) = m_boards m"
  by (simp add: trigger_callbacks_def split: prod.splits)

lemma ty_board_unref_boards [simp]:
  "m_boards (ty_board_unref m b) = m_boards m"
  by (simp add: ty_board_unref_def)

lemma find_board_some:
  "find_board bs loc = Some i \<Longrightarrow> i < length bs \<and> board_location (bs ! i) = loc"
  by (induction bs arbitrary: i) (auto split: if_splits)

lemma update_keys:
  "i < length bs \<Longrightarrow> board_key b' = board_key (bs ! i) \<Longrightarrow>
   map board_key (bs[i := b']) = map board_key bs"
  by (simp add: map_update list_eq_iff_nth_eq nth_list_update)

lemma link_interface_keys:
  "i < length (m_boards m) \<Longrightarrow>
   map board_key (m_boards (snd (link_interface m i iface ev))) = map board_key (m_boards m)"
  by (simp add: link_interface_def Let_def update_keys board_key_def)

lemma close_board_keys:
  "i < length (m_boards m) \<Longrightarrow>
   map board_key (m_boards (close_board m i)) = map board_key (m_boards m)"
  by (simp add: close_board_def Let_def update_keys board_key_def)

lemma drop_board_boards:
  "i < length (m_boards m) \<Longrightarrow>
   m_boards (drop_board m i) = take i (m_boards m) @ drop (Suc i) (m_boards m)"
  by (simp add: drop_board_def Let_def)

lemma add_board_keys:
  "add_board m iface fail = Inr (i, m') \<Longrightarrow>
     i = length (m_boards m) \<and> length (m_boards m') = Suc (length (m_boards m)) \<and>
     map board_key (m_boards m') = map board_key (m_boards m) @ [formatted_identity iface]"
  by (auto simp: add_board_def board_key_def formatted_identity_def split: option.splits)

lemma upgrade_board_key [simp]:
  "board_key (upgrade_board cs iface b) = board_key b"
  by (simp add: upgrade_board_def board_key_def Let_def)

lemma resolve_board_keys:
  assumes "resolve_board cs m dev iface = (m1, bo)"
  shows "set (map board_key (m_boards m1)) \<subseteq> set (map board_key (m_boards m))
         \<and> (\<forall>i. bo = Some i \<longrightarrow> i < length (m_boards m1))"
proof (cases "find_board (m_boards m) (dev_location dev)")
  case None
  with assms show ?thesis by (simp add: resolve_board_def)
next
  case (Some i)
  then have i: "i < length (m_boards m)" by (simp add: find_board_some)
  have sub: "set (map board_key (take i (m_boards m) @ drop (Suc i) (m_boards m)))
               \<subseteq> set (map board_key (m_boards m))"
    using set_take_subset [of i "m_boards m"] set_drop_subset [of "Suc i" "m_boards m"] by auto
  have len: "length (m_boards (close_board m i)) = length (m_boards m)"
    using close_board_keys [OF i] by (metis length_map)
  show ?thesis
  proof (cases "board_replaced cs iface (m_boards m ! i)")
    case True
    with assms Some have "m1 = ty_board_unref (drop_board m i) (m_boards m ! i)" "bo = None"
      by (auto simp: resolve_board_def)
    with sub i show ?thesis by (simp add: drop_board_boards)
  next
    case False
    show ?thesis
    proof (cases "board_vid (m_boards m ! i) \<noteq> dev_vid dev \<or> board_pid (m_boards m ! i) \<noteq> dev_pid dev")
      case True
      let ?bs = "(m_boards (close_board m i))
              [i := (m_boards (close_board m i) ! i)\<lparr>board_vid := dev_vid dev, board_pid := dev_pid dev\<rparr>]"
      have "map board_key ?bs = map board_key (m_boards (close_board m i))"
        using i len by (intro update_keys) (simp_all add: board_key_def)
      then have k: "map board_key ?bs = map board_key (m_boards m)"
        using close_board_keys [OF i] by simp
      have m1: "m1 = (close_board m i)\<lparr>m_boards := ?bs\<rparr>" and bo: "bo = Some i"
        using assms Some False True by (auto simp: resolve_board_def Let_def)
      have "set (map board_key (m_boards m1)) = set (map board_key (m_boards m))"
        using m1 k by simp
      moreover have "length (m_boards m1) = length (m_boards m)"
        using m1 len by simp
      ultimately show ?thesis using bo i by simp
    next
      case nochange: False
      with assms Some False i show ?thesis
        by (auto simp: resolve_board_def)
    qed
  qed
qed

text \<open>
  C5, as the code has it. After \<open>add_interface\<close>, every board of the manager either
  has the location and the identity of a board that was there before (no path writes
  the identity of an existing board), or is the board just made by \<open>add_board\<close>, whose
  identity is the location, \<open>#\<close> and the serial number in decimal, also when the
  serial number is zero.
\<close>

theorem add_interface_identity:
  assumes "add_interface cs m dev opened fail = (r, m')"
  shows "set (map board_key (m_boards m')) \<subseteq>
           set (map board_key (m_boards m)) \<union>
           (case opened of Inr (Some iface) \<Rightarrow> {formatted_identity iface} | _ \<Rightarrow> {})"
proof (cases opened)
  case (Inl e)
  with assms show ?thesis by (simp add: add_interface_def)
next
  case (Inr o1)
  show ?thesis
  proof (cases o1)
    case None
    with Inr assms show ?thesis by (simp add: add_interface_def)
  next
    case (Some iface)
    obtain m1 bo where rb: "resolve_board cs m dev iface = (m1, bo)" by force
    from resolve_board_keys [OF rb] have
      sub: "set (map board_key (m_boards m1)) \<subseteq> set (map board_key (m_boards m))"
      and idx: "\<And>i. bo = Some i \<Longrightarrow> i < length (m_boards m1)" by auto
    show ?thesis
    proof (cases bo)
      case (Some i)
      let ?m1 = "m1\<lparr>m_boards := (m_boards m1)[i := upgrade_board cs iface (m_boards m1 ! i)]\<rparr>"
      have i: "i < length (m_boards m1)" using idx Some by simp
      have "m' = snd (link_interface ?m1 i iface TY_BOARD_EVENT_CHANGED)"
        using assms Inr \<open>o1 = Some iface\<close> rb Some
        by (auto simp: add_interface_def split: prod.splits)
      then have "map board_key (m_boards m') = map board_key (m_boards ?m1)"
        using i by (simp add: link_interface_keys)
      also have "\<dots> = map board_key (m_boards m1)"
        using i by (simp add: update_keys)
      finally show ?thesis using sub by auto
    next
      case None
      show ?thesis
      proof (cases "add_board m1 iface fail")
        case (Inl e)
        with assms Inr \<open>o1 = Some iface\<close> rb None have "m' = m1"
          by (auto simp: add_interface_def)
        with sub show ?thesis by auto
      next
        case (Inr p)
        obtain i m2 where p: "p = (i, m2)" by force
        from add_board_keys [OF Inr [unfolded p]] have
          k: "i < length (m_boards m2)"
             "map board_key (m_boards m2) = map board_key (m_boards m1) @ [formatted_identity iface]"
          by auto
        have "m' = snd (link_interface m2 i iface TY_BOARD_EVENT_ADDED)"
          using assms \<open>opened = Inr o1\<close> \<open>o1 = Some iface\<close> rb None Inr p
          by (auto simp: add_interface_def split: prod.splits)
        then have "map board_key (m_boards m') = map board_key (m_boards m1) @ [formatted_identity iface]"
          using k by (simp add: link_interface_keys)
        with sub \<open>opened = Inr o1\<close> \<open>o1 = Some iface\<close> show ?thesis by auto
      qed
    qed
  qed
qed

theorem add_interface_identity_witness:
  "add_interface example_code_size empty_manager example_device (Inr (Some example_iface_zero)) None
     = (Inr 0,
        snd (add_interface example_code_size empty_manager example_device
               (Inr (Some example_iface_zero)) None)) \<and>
   set (map board_key (m_boards (snd (add_interface example_code_size empty_manager example_device
               (Inr (Some example_iface_zero)) None))))
     \<subseteq> {(''usb-1-2'', ''usb-1-2#0'')}"
proof -
  have e: "fst (add_interface example_code_size empty_manager example_device
                  (Inr (Some example_iface_zero)) None) = Inr 0"
    by (simp add: add_interface_def resolve_board_def empty_manager_def add_board_def
          link_interface_def trigger_callbacks_def example_iface_zero_def example_device_def)
  have d: "decimal 0 = ''0''"
    by (simp add: decimal.simps digit_char_def)
  have p: "add_interface example_code_size empty_manager example_device
             (Inr (Some example_iface_zero)) None
           = (Inr 0, snd (add_interface example_code_size empty_manager example_device
                            (Inr (Some example_iface_zero)) None))"
    using e by (metis prod.collapse)
  from add_interface_identity [OF p] p d show ?thesis
    by (simp add: empty_manager_def formatted_identity_def example_iface_zero_def
          example_device_def)
qed

text \<open>
  C5 as stated fails: the board made from an interface with serial number zero gets the
  identity \<open>usb-1-2#0\<close>; the suffix is not omitted.
\<close>

theorem zero_serial_identity_keeps_suffix:
  "iface_serial example_iface_zero = 0 \<and>
   map board_identity (m_boards (snd (projr (add_board empty_manager example_iface_zero None))))
     = [''usb-1-2#0'']"
  by (simp add: add_board_def empty_manager_def example_iface_zero_def example_device_def
        decimal.simps digit_char_def)

text \<open>
  The test the code applies to the board found at the location, and its relation to the
  rule of the specification: whenever the rule of the specification asks for the
  replacement, the code replaces the board.
\<close>

lemma resolve_board_rule:
  "find_board (m_boards m) (dev_location dev) = Some i \<Longrightarrow>
   (snd (resolve_board cs m dev iface) = None) = board_replaced cs iface (m_boards m ! i)"
  by (simp add: resolve_board_def Let_def)

lemma spec_board_replaced_imp:
  "spec_board_replaced cs iface board \<Longrightarrow> board_replaced cs iface board"
  by (auto simp: spec_board_replaced_def board_replaced_def)

text \<open>
  On a board that is kept, the serial number stays as it is: the assignment
  \<open>board->serial = iface->serial\<close> of the source only ever writes the value the
  board already has.
\<close>

lemma upgrade_board_serial_unchanged:
  "\<not> board_replaced cs iface b \<Longrightarrow> board_serial (upgrade_board cs iface b) = board_serial b"
  by (auto simp: board_replaced_def upgrade_board_def Let_def)

text \<open>
  C1. The specification has it that the board is kept when neither condition holds, in particular
  when one of the two serial numbers is zero. The code compares the serial numbers
  without asking whether they are zero: an interface with serial number 0, of the same
  model and the same vendor and product id as the board with serial number 12345 at its
  location, makes the code drop that board and add a new one.
\<close>

theorem add_interface_zero_serial_drops_board:
  "\<not> spec_board_replaced example_code_size example_iface_zero example_board \<and>
   m_trace (snd (add_interface example_code_size example_manager example_device
                   (Inr (Some example_iface_zero)) None))
     = [(0, ''usb-1-2'', TY_BOARD_EVENT_DROPPED), (0, ''usb-1-2'', TY_BOARD_EVENT_ADDED)] \<and>
   map board_identity
     (m_boards (snd (add_interface example_code_size example_manager example_device
                       (Inr (Some example_iface_zero)) None)))
     = [''usb-1-2#0'']"
  by (simp add: spec_board_replaced_def add_interface_def resolve_board_def board_replaced_def
        drop_board_def ty_board_unref_def add_board_def link_interface_def
        trigger_callbacks_def example_manager_def example_board_def example_iface_zero_def example_device_def
        observer_callback_def model_is_valid_def example_code_size_def
        decimal.simps digit_char_def Let_def)

section \<open>Matching a board against an identity\<close>

text \<open>
  The decimal text of a number is a string of digits that \<open>strtoull\<close> reads back
  as the number.
\<close>

lemma digit_char_value:
  "d < 10 \<Longrightarrow> is_digit (digit_char d) \<and> digit_value (digit_char d) = d"
proof -
  assume "d < 10"
  then have "d \<in> {0, 1, 2, 3, 4, 5, 6, 7, 8, 9}" by auto
  then show ?thesis
    by (auto simp: digit_char_def is_digit_def digit_value_def)
qed

lemma digits_value_snoc:
  "digits_value (ds @ [c]) = 10 * digits_value ds + digit_value c"
  by (simp add: digits_value_def)

lemma decimal_digits:
  "decimal n \<noteq> [] \<and> list_all is_digit (decimal n) \<and> digits_value (decimal n) = n"
proof (induction n rule: decimal.induct)
  case (1 n)
  show ?case
  proof (cases "n < 10")
    case True
    with digit_char_value [OF True] show ?thesis
      by (simp add: decimal.simps [of n] digits_value_def)
  next
    case False
    have d: "n mod 10 < 10" by simp
    from "1.IH" [OF False] digit_char_value [OF d] False show ?thesis
      by (simp add: decimal.simps [of n] digits_value_snoc)
  qed
qed

lemma digit_not_space_sign:
  "is_digit c \<Longrightarrow> \<not> is_space c \<and> c \<noteq> CHR ''-'' \<and> c \<noteq> CHR ''+''"
  by (auto simp: is_digit_def is_space_def)

lemma strchr_absent: "c \<notin> set s \<Longrightarrow> strchr s c = None"
  by (simp add: strchr_def)

lemma strchr_first: "c \<notin> set s \<Longrightarrow> strchr (s @ c # t) c = Some (length s)"
  by (induction s) (auto simp: strchr_def)

lemma takeWhile_short:
  "\<exists>c\<in>set t. \<not> P c \<Longrightarrow> length (takeWhile P t) < length t"
  by (induction t) auto

lemma digits_value_zeros:
  "digits_value (replicate k CHR ''0'' @ ds) = digits_value ds"
proof -
  have "foldl (\<lambda>a c. 10 * a + digit_value c) 0 (replicate k CHR ''0'') = 0"
    by (induction k) (simp_all add: digit_value_def)
  then show ?thesis by (simp add: digits_value_def)
qed

lemma zeros_digits: "list_all is_digit (replicate k CHR ''0'')"
  by (simp add: list_all_iff is_digit_def)

lemma sign_not_space: "\<not> is_space CHR ''+''" "\<not> is_space CHR ''-''"
  by (simp_all add: is_space_def)

text \<open>
  \<open>strtoull\<close> on a text split into its leading white space, its sign if any, and the
  rest.
\<close>

lemma strtoull_split:
  assumes ws: "list_all is_space ws"
    and sg: "sg = [] \<or> sg = ''+'' \<or> sg = ''-''"
    and mx: "sg = [] \<longrightarrow> rest = [] \<or>
               \<not> (is_space (hd rest) \<or> hd rest = CHR ''+'' \<or> hd rest = CHR ''-'')"
  shows "strtoull (ws @ sg @ rest) =
           (if takeWhile is_digit rest = [] then (0, 0)
            else ((if 2 ^ 64 \<le> digits_value (takeWhile is_digit rest) then - 1
                   else if sg = ''-'' then - word_of_nat (digits_value (takeWhile is_digit rest))
                   else word_of_nat (digits_value (takeWhile is_digit rest))),
                  length ws + length sg + length (takeWhile is_digit rest)))"
proof -
  have d1: "dropWhile is_space (ws @ sg @ rest) = dropWhile is_space (sg @ rest)"
    using ws by (simp add: list_all_iff)
  have d2: "dropWhile is_space (sg @ rest) = sg @ rest"
  proof (cases "sg = []")
    case True
    with mx show ?thesis by (cases rest) auto
  next
    case False
    with sg show ?thesis by (auto simp: sign_not_space)
  qed
  have s1: "dropWhile is_space (ws @ sg @ rest) = sg @ rest" using d1 d2 by simp
  show ?thesis
  proof (cases "sg = []")
    case True
    with mx have ns: "rest = [] \<or> (hd rest \<noteq> CHR ''-'' \<and> hd rest \<noteq> CHR ''+'')" by auto
    show ?thesis
      unfolding strtoull_def Let_def s1
      using True ns by auto
  next
    case False
    with sg have "sg = ''+'' \<or> sg = ''-''" by simp
    then show ?thesis
      unfolding strtoull_def Let_def s1
      by auto
  qed
qed

lemma digits_all: "list_all is_digit (replicate k CHR ''0'' @ decimal n)"
  using zeros_digits [of k] decimal_digits [of n] by simp

lemma parse_serial_part:
  assumes "CHR ''#'' \<notin> set loc"
  shows "parse_identity False (loc @ CHR ''#'' # t) =
           (case strtoull t of
              (serial, end) \<Rightarrow>
                if end = 0 \<or> end < length t then Inl TY_ERROR_PARAM
                else Inr (if loc = [] then None else Some loc, serial))"
  using strchr_first [OF assms, of t]
  by (simp add: parse_identity_def Let_def split: prod.splits)

text \<open>
  The theorem below covers every serial part: a string of digits that does not start
  with a zero is the decimal text of its value.
\<close>

lemma digit_char_of_value: "is_digit c \<Longrightarrow> digit_char (digit_value c) = c \<and> digit_value c < 10"
  by (auto simp: is_digit_def digit_char_def digit_value_def)

lemma zero_digit: "is_digit c \<Longrightarrow> (digit_value c = 0) = (c = CHR ''0'')"
  by (auto simp: is_digit_def digit_value_def)

lemma decimal_of_digits:
  "ds \<noteq> [] \<Longrightarrow> list_all is_digit ds \<Longrightarrow> hd ds \<noteq> CHR ''0'' \<Longrightarrow>
     decimal (digits_value ds) = ds \<and> 0 < digits_value ds"
proof (induction ds rule: rev_induct)
  case Nil
  then show ?case by simp
next
  case (snoc c ds)
  from snoc.prems(2) have c: "is_digit c" and dsd: "list_all is_digit ds" by simp_all
  note cv = digit_char_of_value [OF c]
  show ?case
  proof (cases "ds = []")
    case True
    with snoc.prems(3) have "c \<noteq> CHR ''0''" by simp
    with zero_digit [OF c] have "0 < digit_value c" by simp
    with True cv show ?thesis
      by (simp add: digits_value_def decimal.simps [of "digit_value c"])
  next
    case False
    with snoc.prems(3) have "hd ds \<noteq> CHR ''0''" by simp
    from snoc.IH [OF False dsd this] have ih: "decimal (digits_value ds) = ds"
      and pos: "0 < digits_value ds" by simp_all
    let ?n = "10 * digits_value ds + digit_value c"
    have n: "digits_value (ds @ [c]) = ?n" by (rule digits_value_snoc)
    have ge: "\<not> ?n < 10" using pos by simp
    have dv: "?n div 10 = digits_value ds" using cv by simp
    have md: "?n mod 10 = digit_value c" using cv by simp
    have "decimal ?n = decimal (?n div 10) @ [digit_char (?n mod 10)]"
      using ge by (subst decimal.simps) simp
    with dv md ih cv have "decimal ?n = ds @ [c]" by simp
    with n pos show ?thesis by simp
  qed
qed

text \<open>Every string of digits is zeros followed by the decimal text of a number.\<close>

lemma digits_canonical:
  "ds \<noteq> [] \<Longrightarrow> list_all is_digit ds \<Longrightarrow> \<exists>k n. ds = replicate k CHR ''0'' @ decimal n"
proof (induction ds)
  case Nil
  then show ?case by simp
next
  case (Cons d ds)
  show ?case
  proof (cases "d = CHR ''0''")
    case False
    with Cons.prems decimal_of_digits [of "d # ds"]
    have "d # ds = replicate 0 CHR ''0'' @ decimal (digits_value (d # ds))" by simp
    then show ?thesis by blast
  next
    case True
    show ?thesis
    proof (cases "ds = []")
      case e: True
      have "decimal 0 = ''0''" by (simp add: decimal.simps digit_char_def)
      with True e have "d # ds = replicate 0 CHR ''0'' @ decimal 0" by simp
      then show ?thesis by blast
    next
      case ne: False
      with Cons obtain k n where "ds = replicate k CHR ''0'' @ decimal n" by auto
      with True have "d # ds = replicate (Suc k) CHR ''0'' @ decimal n" by simp
      then show ?thesis by blast
    qed
  qed
qed

text \<open>
  Every text splits into white space, at most one sign and a rest, as the theorem
  below takes it.
\<close>

lemma serial_part_split:
  "\<exists>ws sg rest. t = ws @ sg @ rest \<and> list_all is_space ws
     \<and> (sg = [] \<or> sg = ''+'' \<or> sg = ''-'')
     \<and> (sg = [] \<longrightarrow> rest = [] \<or>
           \<not> (is_space (hd rest) \<or> hd rest = CHR ''+'' \<or> hd rest = CHR ''-''))"
proof -
  let ?ws = "takeWhile is_space t" and ?r = "dropWhile is_space t"
  have ws: "list_all is_space ?ws" by (simp add: list_all_iff) (meson set_takeWhileD)
  have hd: "?r = [] \<or> \<not> is_space (hd ?r)" using hd_dropWhile [of is_space t] by blast
  show ?thesis
  proof (cases "?r \<noteq> [] \<and> (hd ?r = CHR ''+'' \<or> hd ?r = CHR ''-'')")
    case True
    then have "?r = [hd ?r] @ tl ?r" by simp
    then have "t = ?ws @ [hd ?r] @ tl ?r" by (metis takeWhile_dropWhile_id)
    with ws True show ?thesis by blast
  next
    case False
    have "t = ?ws @ [] @ ?r" by simp
    with ws False hd show ?thesis by blast
  qed
qed

text \<open>
  C9, as the code has it. A NULL or empty argument matches every board. Otherwise the
  argument is a location part, which has no \<open>#\<close>, then optionally \<open>#\<close> and a serial
  part. A location part must be empty or equal to the location of the board. The serial
  part is read by \<open>strtoull\<close>: white space, then at most one sign, then the digits of
  a number \<open>n\<close>, with any zeros before them. The value read is \<open>2 ^ 64 - 1\<close> when
  \<open>n\<close> does not fit in 64 bits, the negation of \<open>n\<close> modulo \<open>2 ^ 64\<close> after a minus
  sign, and \<open>n\<close> otherwise; it must be zero or equal to the serial number of the
  board. A serial part in which no digit follows the white space and the sign, or in
  which any character follows the digits, is a parameter error.
\<close>

theorem matches_identity_rules:
  assumes "CHR ''#'' \<notin> set loc"
    and "list_all is_space ws"
    and "sg = [] \<or> sg = ''+'' \<or> sg = ''-''"
    and "sg = [] \<longrightarrow> rest = [] \<or>
           \<not> (is_space (hd rest) \<or> hd rest = CHR ''+'' \<or> hd rest = CHR ''-'')"
    and "rest = [] \<or> (\<exists>c\<in>set rest. \<not> is_digit c)"
  shows "ty_board_matches_identity nomem board None = Inr 1
       \<and> ty_board_matches_identity nomem board (Some []) = Inr 1
       \<and> ty_board_matches_identity False board (Some loc)
           = Inr (if loc = [] \<or> loc = board_location board then 1 else 0)
       \<and> ty_board_matches_identity False board
             (Some (loc @ ''#'' @ ws @ sg @ replicate k CHR ''0'' @ decimal n))
           = Inr (let v = (if 2 ^ 64 \<le> n then - 1
                           else if sg = ''-'' then - word_of_nat n else word_of_nat n)
                  in if (loc = [] \<or> loc = board_location board)
                        \<and> (v = 0 \<or> v = board_serial board)
                     then 1 else 0)
       \<and> ty_board_matches_identity False board (Some (loc @ ''#'' @ ws @ sg @ rest))
           = Inl TY_ERROR_PARAM"
proof (intro conjI)
  show "ty_board_matches_identity nomem board None = Inr 1"
    by (simp add: ty_board_matches_identity_def)
  show "ty_board_matches_identity nomem board (Some []) = Inr 1"
    by (simp add: ty_board_matches_identity_def)
  show "ty_board_matches_identity False board (Some loc)
           = Inr (if loc = [] \<or> loc = board_location board then 1 else 0)"
    using strchr_absent [OF assms(1)]
    by (simp add: ty_board_matches_identity_def parse_identity_def)
next
  let ?ds = "replicate k CHR ''0'' @ decimal n"
  have dg: "takeWhile is_digit ?ds = ?ds"
    using digits_all [of k n] by (simp add: list_all_iff)
  have ne: "?ds \<noteq> []" using decimal_digits [of n] by simp
  have val: "digits_value ?ds = n"
    using digits_value_zeros [of k "decimal n"] decimal_digits [of n] by simp
  have hd: "is_digit (hd ?ds)"
    using digits_all [of k n] ne by (cases ?ds) simp_all
  have mx: "sg = [] \<longrightarrow> ?ds = [] \<or>
           \<not> (is_space (hd ?ds) \<or> hd ?ds = CHR ''+'' \<or> hd ?ds = CHR ''-'')"
    using digit_not_space_sign [OF hd] by simp
  have st: "strtoull (ws @ sg @ ?ds) =
      ((if 2 ^ 64 \<le> n then - 1 else if sg = ''-'' then - word_of_nat n else word_of_nat n),
       length ws + length sg + length ?ds)"
    using strtoull_split [OF assms(2,3) mx, unfolded dg val] decimal_digits [of n] by simp
  show "ty_board_matches_identity False board (Some (loc @ ''#'' @ ws @ sg @ ?ds))
           = Inr (let v = (if 2 ^ 64 \<le> n then - 1
                           else if sg = ''-'' then - word_of_nat n else word_of_nat n)
                  in if (loc = [] \<or> loc = board_location board)
                        \<and> (v = 0 \<or> v = board_serial board)
                     then 1 else 0)"
    using parse_serial_part [OF assms(1), of "ws @ sg @ ?ds"] st decimal_digits [of n]
    by (simp add: ty_board_matches_identity_def Let_def)
next
  have "length (takeWhile is_digit rest) < length rest \<or> rest = []"
    using assms(5) takeWhile_short [of rest is_digit] by auto
  then have "snd (strtoull (ws @ sg @ rest)) = 0
             \<or> snd (strtoull (ws @ sg @ rest)) < length (ws @ sg @ rest)"
    using strtoull_split [OF assms(2,3,4)] by auto
  then show "ty_board_matches_identity False board (Some (loc @ ''#'' @ ws @ sg @ rest))
           = Inl TY_ERROR_PARAM"
    using parse_serial_part [OF assms(1), of "ws @ sg @ rest"]
    by (auto simp: ty_board_matches_identity_def split: prod.splits)
qed

lemma decimal_examples:
  "decimal 12345 = ''12345''" "decimal 12346 = ''12346''" "decimal 1 = ''1''"
  by (simp_all add: decimal.simps digit_char_def)

theorem matches_identity_rules_witness:
  "ty_board_matches_identity False example_board None = Inr 1
   \<and> ty_board_matches_identity False example_board (Some []) = Inr 1
   \<and> ty_board_matches_identity False example_board (Some ''usb-1-2'') = Inr 1
   \<and> ty_board_matches_identity False example_board (Some ''usb-1-3'') = Inr 0
   \<and> ty_board_matches_identity False example_board (Some ''usb-1-2#12345'') = Inr 1
   \<and> ty_board_matches_identity False example_board (Some ''usb-1-2#12346'') = Inr 0
   \<and> ty_board_matches_identity False example_board (Some ''usb-1-3#12345'') = Inr 0
   \<and> ty_board_matches_identity False example_board (Some ''# +0012345'') = Inr 1
   \<and> ty_board_matches_identity False example_board (Some ''#-1'') = Inr 0
   \<and> ty_board_matches_identity False example_board (Some ''usb-1-2#12x'') = Inl TY_ERROR_PARAM
   \<and> ty_board_matches_identity False example_board (Some ''usb-1-2#'') = Inl TY_ERROR_PARAM
   \<and> ty_board_matches_identity False example_board (Some ''usb-1-2#+ 5'') = Inl TY_ERROR_PARAM"
proof -
  have l2: "CHR ''#'' \<notin> set ''usb-1-2''" and l3: "CHR ''#'' \<notin> set ''usb-1-3''"
    and l0: "CHR ''#'' \<notin> set []" by simp_all
  have w0: "list_all is_space []" and w1: "list_all is_space '' ''"
    by (simp_all add: is_space_def)
  have s0: "[] = [] \<or> [] = ''+'' \<or> [] = ''-''"
    and sp: "''+'' = [] \<or> ''+'' = ''+'' \<or> ''+'' = ''-''"
    and sm: "''-'' = [] \<or> ''-'' = ''+'' \<or> ''-'' = ''-''" by simp_all
  have m0: "[] = [] \<longrightarrow> ''12x'' = [] \<or>
           \<not> (is_space (hd ''12x'') \<or> hd ''12x'' = CHR ''+'' \<or> hd ''12x'' = CHR ''-'')"
    by (simp add: is_space_def)
  have b0: "''12x'' = [] \<or> (\<exists>c\<in>set ''12x''. \<not> is_digit c)"
    by (simp add: is_digit_def)
  have me: "[] = [] \<longrightarrow> [] = [] \<or>
           \<not> (is_space (hd []) \<or> hd [] = CHR ''+'' \<or> hd [] = CHR ''-'')"
    and be: "[] = [] \<or> (\<exists>c\<in>set []. \<not> is_digit c)" by simp_all
  have mp: "''+'' = [] \<longrightarrow> '' 5'' = [] \<or>
           \<not> (is_space (hd '' 5'') \<or> hd '' 5'' = CHR ''+'' \<or> hd '' 5'' = CHR ''-'')"
    and bp: "'' 5'' = [] \<or> (\<exists>c\<in>set '' 5''. \<not> is_digit c)"
    by (simp_all add: is_digit_def)
  have mm: "''-'' = [] \<longrightarrow> [] = [] \<or>
           \<not> (is_space (hd []) \<or> hd [] = CHR ''+'' \<or> hd [] = CHR ''-'')" by simp
  note a = matches_identity_rules [OF l2 w0 s0 m0 b0, of False example_board 0 12345]
  note b = matches_identity_rules [OF l2 w0 s0 me be, of False example_board 0 12346]
  note c = matches_identity_rules [OF l3 w0 s0 me be, of False example_board 0 12345]
  note d = matches_identity_rules [OF l0 w1 sp mp bp, of False example_board 2 12345]
  note e = matches_identity_rules [OF l0 w0 sm mm be, of False example_board 0 1]
  note f = matches_identity_rules [OF l2 w0 sp mp bp, of False example_board 0 1]
  have z: "replicate 2 CHR ''0'' = ''00''" by (simp add: numeral_2_eq_2)
  from a b c d e f decimal_examples show ?thesis
    by (simp add: example_board_def z)
qed

text \<open>
  C9 as stated fails. The serial parts \<open>18446744073709551616\<close> and \<open>-1\<close> are not
  zero and are not equal in number to the serial number \<open>18446744073709551615\<close>, and
  they match the board that has it; and the serial part \<open>12345\<close> with a blank or a
  plus sign before it, which is not a plain decimal number, is no parameter error.
\<close>

theorem matches_identity_not_numeric:
  "ty_board_matches_identity False (example_board\<lparr>board_serial := 18446744073709551615\<rparr>)
      (Some ''usb-1-2#18446744073709551616'') = Inr 1
   \<and> ty_board_matches_identity False (example_board\<lparr>board_serial := 18446744073709551615\<rparr>)
      (Some ''usb-1-2#-1'') = Inr 1
   \<and> ty_board_matches_identity False example_board (Some ''usb-1-2# 12345'') = Inr 1
   \<and> ty_board_matches_identity False example_board (Some ''usb-1-2#+12345'') = Inr 1"
  by (simp add: ty_board_matches_identity_def parse_identity_def strchr_def strtoull_def
        is_space_def is_digit_def digits_value_def digit_value_def example_board_def Let_def)

section \<open>Serial write and upload\<close>

text \<open>
  C10. On a board with the serial capability, \<open>ty_board_serial_write\<close> called with
  size 0 takes the buffer as a NUL-terminated string: the vtable's \<open>serial_write\<close> is
  called on the interface of the capability with the buffer and with the number of
  bytes before the first NUL as the size.
\<close>

theorem serial_write_zero_size:
  assumes "ty_board_get_interface board TY_BOARD_CAPABILITY_SERIAL = Some iface"
    and "0 \<notin> set s"
  shows "ty_board_serial_write board (s @ 0 # rest) 0
           = Inr (Vt_serial_write iface (s @ 0 # rest) (length s))"
proof -
  have "takeWhile (\<lambda>b. b \<noteq> 0) (s @ 0 # rest) = s"
    using assms(2) by (induction s) auto
  then show ?thesis
    using assms(1) by (simp add: ty_board_serial_write_def strlen_def)
qed

theorem serial_write_zero_size_witness:
  "ty_board_serial_write serial_board [0x41, 0x54, 0x0D, 0, 0x55] 0
     = Inr (Vt_serial_write
              \<lparr>iface_dev = example_device, iface_model = Some Teensy_31, iface_serial = 12345,
                iface_capabilities = 8\<rparr>
              [0x41, 0x54, 0x0D, 0, 0x55] 3)"
proof -
  have g: "ty_board_get_interface serial_board TY_BOARD_CAPABILITY_SERIAL
             = Some \<lparr>iface_dev = example_device, iface_model = Some Teensy_31,
                      iface_serial = 12345, iface_capabilities = 8\<rparr>"
    by (simp add: ty_board_get_interface_def serial_board_def)
  have z: "(0 :: byte) \<notin> set [0x41, 0x54, 0x0D]" by simp
  from serial_write_zero_size [OF g z, of "[0x55]"] show ?thesis by simp
qed





section \<open>Task status, finalize and worker start\<close>

lemma log_status_append:
  "log_status cur (es @ es') = log_status (log_status cur es) es'"
  by (induction cur es rule: log_status.induct) simp_all

lemma status_trace_ok_append:
  "status_trace_ok cur (es @ es') =
     (status_trace_ok cur es \<and> status_trace_ok (log_status cur es) es')"
  by (induction cur es rule: status_trace_ok.induct) auto

lemma status_inv_ref [simp]: "status_inv (ty_task_ref t) = status_inv t"
  by (simp add: status_inv_def ty_task_ref_def)

lemma finalize_inv_ref [simp]: "finalize_inv (ty_task_ref t) = finalize_inv t"
  by (simp add: finalize_inv_def ty_task_ref_def)

lemma freed_ref [simp]: "task_freed (ty_task_ref t) = task_freed t"
  by (simp add: ty_task_ref_def)

lemma status_ref [simp]: "task_status (ty_task_ref t) = task_status t"
  by (simp add: ty_task_ref_def)

lemma status_inv_unref: "status_inv t \<Longrightarrow> status_inv (ty_task_unref t)"
  by (simp add: status_inv_def ty_task_unref_def Let_def log_status_append status_trace_ok_append)

lemma status_unref [simp]: "task_status (ty_task_unref t) = task_status t"
  by (simp add: ty_task_unref_def Let_def)

lemma status_inv_run:
  assumes "run_task t r = Some t'" "status_inv t"
  shows "status_inv t' \<and> task_status t' = TY_TASK_STATUS_FINISHED"
proof -
  from assms(1) have le: "status_rank (task_status t) \<le> 1"
    by (simp add: run_task_def split: if_splits)
  with assms show ?thesis
    by (auto simp: run_task_def Let_def status_inv_def change_status_def
          log_status_append status_trace_ok_append split: if_splits)
qed

lemma start_status:
  assumes "after (ty_task_start p t sp) = Some (p', t')" "status_inv t"
  shows "status_inv t' \<and> status_rank (task_status t) \<le> status_rank (task_status t')"
  using assms
  by (auto simp: ty_task_start_def status_inv_def change_status_def
        ty_task_ref_def log_status_append status_trace_ok_append
        split: if_splits sum.splits)

lemma demote_status:
  assumes "task_status t = TY_TASK_STATUS_PENDING" "status_inv t"
  shows "status_inv ((ty_task_unref t)\<lparr>task_status := TY_TASK_STATUS_READY,
           task_log := task_log (ty_task_unref t) @ [Status_assigned TY_TASK_STATUS_READY]\<rparr>)"
proof -
  from status_inv_unref [OF assms(2)] have "status_inv (ty_task_unref t)" .
  then show ?thesis
    using assms(1)
    by (simp add: status_inv_def log_status_append status_trace_ok_append)
qed

text \<open>
  What \<open>ty_task_wait\<close> does to the task, branch by branch: it runs the task in the
  caller's thread (after it has taken a pending task back from the list), or it starts
  the task, or it leaves the task as it is.
\<close>

lemma wait_cases:
  assumes "after (ty_task_wait p t s tm sp r) = Some (p', t')"
  shows "(s = TY_TASK_STATUS_FINISHED \<and> tm < 0 \<and> task_status t = TY_TASK_STATUS_PENDING
            \<and> run_task ((ty_task_unref t)\<lparr>task_status := TY_TASK_STATUS_READY,
                  task_log := task_log (ty_task_unref t)
                                @ [Status_assigned TY_TASK_STATUS_READY]\<rparr>) r = Some t')
         \<or> (s = TY_TASK_STATUS_FINISHED \<and> tm < 0 \<and> task_status t = TY_TASK_STATUS_READY
            \<and> run_task t r = Some t')
         \<or> (task_status t = TY_TASK_STATUS_READY \<and> after (ty_task_start p t sp) = Some (p', t'))
         \<or> t' = t"
proof (cases "s = TY_TASK_STATUS_FINISHED \<and> tm < 0")
  case fast: True
  show ?thesis
  proof (cases "task_status t = TY_TASK_STATUS_PENDING")
    case True
    with assms fast show ?thesis
      by (auto simp: ty_task_wait_def Let_def split: if_splits option.splits)
  next
    case False
    with assms fast show ?thesis
      by (auto simp: ty_task_wait_def Let_def wait_for_status_def
            split: if_splits option.splits)
  qed
next
  case slow: False
  show ?thesis
  proof (cases "s = TY_TASK_STATUS_READY")
    case True
    with assms show ?thesis by (simp add: ty_task_wait_def)
  next
    case nr: False
    show ?thesis
    proof (cases "task_status t = TY_TASK_STATUS_READY")
      case True
      from assms slow nr True have "after (ty_task_start p t sp) = Some (p', t')"
        by (auto simp: ty_task_wait_def wait_for_status_def
              split: outcome.splits sum.splits if_splits)
      with True show ?thesis by simp
    next
      case False
      with assms slow nr have "t' = t"
        by (auto simp: ty_task_wait_def wait_for_status_def split: if_splits)
      then show ?thesis by simp
    qed
  qed
qed

lemma wait_status:
  assumes a: "after (ty_task_wait p t s tm sp r) = Some (p', t')" and i: "status_inv t"
  shows "status_inv t' \<and> status_rank (task_status t) \<le> status_rank (task_status t')"
  using wait_cases [OF a]
proof (elim disjE conjE)
  assume pend: "task_status t = TY_TASK_STATUS_PENDING"
    and r: "run_task ((ty_task_unref t)\<lparr>task_status := TY_TASK_STATUS_READY,
                  task_log := task_log (ty_task_unref t)
                                @ [Status_assigned TY_TASK_STATUS_READY]\<rparr>) r = Some t'"
  from status_inv_run [OF r demote_status [OF pend i]] pend show ?thesis by simp
next
  assume rdy: "task_status t = TY_TASK_STATUS_READY" and r: "run_task t r = Some t'"
  from status_inv_run [OF r i] rdy show ?thesis by simp
next
  assume "after (ty_task_start p t sp) = Some (p', t')"
  from start_status [OF this i] show ?thesis .
next
  assume "t' = t"
  with i show ?thesis by simp
qed

lemma worker_cases:
  assumes "task_thread_step p t r = Some (p', t')"
  shows "t' = t \<or> (\<exists>t1. run_task t r = Some t1 \<and> t' = ty_task_unref t1)"
  using assms
  by (auto simp: task_thread_step_def Let_def split: if_splits list.splits option.splits)

lemma worker_status:
  assumes a: "task_thread_step p t r = Some (p', t')" and i: "status_inv t"
  shows "status_inv t' \<and> status_rank (task_status t) \<le> status_rank (task_status t')"
  using worker_cases [OF a]
proof (elim disjE exE conjE)
  assume "t' = t"
  with i show ?thesis by simp
next
  fix t1 assume r: "run_task t r = Some t1" and t': "t' = ty_task_unref t1"
  from status_inv_run [OF r i] t' show ?thesis
    by (cases "task_status t") (auto simp: status_inv_unref)
qed

lemma pool_free_status:
  assumes "ty_pool_free p t = (p', t')" "status_inv t"
  shows "status_inv t' \<and> task_status t' = task_status t"
  using assms
  by (auto simp: ty_pool_free_def status_inv_unref split: if_splits)

lemma exec_op_status:
  assumes a: "exec_op opn (p, t) = Some (p', t')" and i: "status_inv t"
  shows "status_inv t' \<and> status_rank (task_status t) \<le> status_rank (task_status t')"
proof -
  from a have nf: "\<not> task_freed t" by (simp split: if_splits)
  show ?thesis
  proof (cases opn)
    case Op_ref
    with a nf i show ?thesis by auto
  next
    case Op_unref
    with a nf i show ?thesis by (auto simp: status_inv_unref)
  next
    case (Op_start sp)
    with a nf have "after (ty_task_start p t sp) = Some (p', t')" by simp
    from start_status [OF this i] show ?thesis .
  next
    case (Op_wait s tm sp r)
    with a nf have "after (ty_task_wait p t s tm sp r) = Some (p', t')" by simp
    from wait_status [OF this i] show ?thesis .
  next
    case (Op_worker r)
    with a nf have "task_thread_step p t r = Some (p', t')" by simp
    from worker_status [OF this i] show ?thesis .
  next
    case Op_pool_free
    with a nf have "ty_pool_free p t = (p', t')" by simp
    from pool_free_status [OF this i] show ?thesis by simp
  qed
qed

lemma exec_ops_status:
  "exec_ops ops (p, t) = Some (p', t') \<Longrightarrow> status_inv t \<Longrightarrow>
     status_inv t' \<and> status_rank (task_status t) \<le> status_rank (task_status t')"
proof (induction ops arbitrary: p t)
  case Nil
  then show ?case by simp
next
  case (Cons opn ops)
  from Cons.prems(1) obtain p1 t1 where
    s: "exec_op opn (p, t) = Some (p1, t1)" and r: "exec_ops ops (p1, t1) = Some (p', t')"
    by (auto split: option.splits)
  from exec_op_status [OF s Cons.prems(2)] have 1: "status_inv t1"
    and 2: "status_rank (task_status t) \<le> status_rank (task_status t1)" by simp_all
  from Cons.IH [OF r 1] 2 show ?case by auto
qed

text \<open>
  C4, as the code has it, for calls that run one after the other on a task that starts
  ready. Every \<open>change_status\<close> sets a status above the one the task had; the only
  other write of the status is the assignment in \<open>ty_task_wait\<close> (target finished, no
  time limit), which sets a pending task back to ready before it is run in the caller's
  thread; and the status a task has when a call has ended is never below the status it
  had when an earlier call had ended.
\<close>

theorem task_status_steps:
  assumes "task_status t0 = TY_TASK_STATUS_READY" and "task_log t0 = []"
    and "exec_ops ops (p0, t0) = Some (p1, t1)"
    and "exec_ops ops' (p1, t1) = Some (p, t)"
  shows "status_trace_ok TY_TASK_STATUS_READY (task_log t)
         \<and> task_status t = log_status TY_TASK_STATUS_READY (task_log t)
         \<and> status_rank (task_status t1) \<le> status_rank (task_status t)"
proof -
  have "status_inv t0" using assms(1,2) by (simp add: status_inv_def)
  with exec_ops_status [OF assms(3)] have 1: "status_inv t1" by simp
  with exec_ops_status [OF assms(4)] have "status_inv t"
    and "status_rank (task_status t1) \<le> status_rank (task_status t)" by simp_all
  then show ?thesis by (simp add: status_inv_def)
qed

theorem task_status_steps_witness:
  "task_status fresh_task = TY_TASK_STATUS_READY \<and> task_log fresh_task = []
   \<and> exec_ops [Op_start None] (ty_pool_new, fresh_task)
      = Some (ty_pool_new\<lparr>pool_threads := 1, pool_started := 1, pool_busy := 1,
                pool_pending_tasks := [1]\<rparr>,
              fresh_task\<lparr>task_status := TY_TASK_STATUS_PENDING, task_refcount := 2,
                task_log := [Status_changed TY_TASK_STATUS_PENDING]\<rparr>)
   \<and> exec_ops [Op_worker 7, Op_wait TY_TASK_STATUS_FINISHED (- 1) None 0]
        (ty_pool_new\<lparr>pool_threads := 1, pool_started := 1, pool_busy := 1,
           pool_pending_tasks := [1]\<rparr>,
         fresh_task\<lparr>task_status := TY_TASK_STATUS_PENDING, task_refcount := 2,
           task_log := [Status_changed TY_TASK_STATUS_PENDING]\<rparr>)
      = Some (ty_pool_new\<lparr>pool_threads := 1, pool_started := 1, pool_busy := 1\<rparr>,
              fresh_task\<lparr>task_status := TY_TASK_STATUS_FINISHED, task_ret := 7,
                task_finalize := False,
                task_log := [Status_changed TY_TASK_STATUS_PENDING,
                             Status_changed TY_TASK_STATUS_RUNNING, Run_called, Finalize_called,
                             Status_changed TY_TASK_STATUS_FINISHED]\<rparr>)
   \<and> status_trace_ok TY_TASK_STATUS_READY
        [Status_changed TY_TASK_STATUS_PENDING,
         Status_changed TY_TASK_STATUS_RUNNING, Run_called, Finalize_called,
         Status_changed TY_TASK_STATUS_FINISHED]
   \<and> status_rank TY_TASK_STATUS_PENDING \<le> status_rank TY_TASK_STATUS_FINISHED"
proof -
  have a: "task_status fresh_task = TY_TASK_STATUS_READY" "task_log fresh_task = []"
    by (simp_all add: fresh_task_def ty_task_new_def)
  have e1: "exec_ops [Op_start None] (ty_pool_new, fresh_task)
      = Some (ty_pool_new\<lparr>pool_threads := 1, pool_started := 1, pool_busy := 1,
                pool_pending_tasks := [1]\<rparr>,
              fresh_task\<lparr>task_status := TY_TASK_STATUS_PENDING, task_refcount := 2,
                task_log := [Status_changed TY_TASK_STATUS_PENDING]\<rparr>)"
    by (simp add: fresh_task_def ty_task_new_def ty_pool_new_def ty_task_start_def
          start_thread_def change_status_def ty_task_ref_def)
  have e2: "exec_ops [Op_worker 7, Op_wait TY_TASK_STATUS_FINISHED (- 1) None 0]
        (ty_pool_new\<lparr>pool_threads := 1, pool_started := 1, pool_busy := 1,
           pool_pending_tasks := [1]\<rparr>,
         fresh_task\<lparr>task_status := TY_TASK_STATUS_PENDING, task_refcount := 2,
           task_log := [Status_changed TY_TASK_STATUS_PENDING]\<rparr>)
      = Some (ty_pool_new\<lparr>pool_threads := 1, pool_started := 1, pool_busy := 1\<rparr>,
              fresh_task\<lparr>task_status := TY_TASK_STATUS_FINISHED, task_ret := 7,
                task_finalize := False,
                task_log := [Status_changed TY_TASK_STATUS_PENDING,
                             Status_changed TY_TASK_STATUS_RUNNING, Run_called, Finalize_called,
                             Status_changed TY_TASK_STATUS_FINISHED]\<rparr>)"
    by (simp add: fresh_task_def ty_task_new_def ty_pool_new_def change_status_def
          task_thread_step_def run_task_def ty_task_unref_def ty_task_wait_def
          wait_for_status_def Let_def)
  from task_status_steps [OF a e1 e2] a e1 e2 show ?thesis by simp
qed

text \<open>
  C4 as stated fails: \<open>ty_task_wait\<close> with target finished and no time limit, called
  on a task that \<open>ty_task_start\<close> has made pending, moves the status from pending back
  to ready.
\<close>

theorem wait_demotes_pending_task:
  "exec_ops [Op_start None, Op_wait TY_TASK_STATUS_FINISHED (- 1) None 0]
     (ty_pool_new, fresh_task)
   = Some (ty_pool_new\<lparr>pool_threads := 1, pool_started := 1, pool_busy := 1\<rparr>,
           fresh_task\<lparr>task_status := TY_TASK_STATUS_FINISHED, task_finalize := False,
             task_log := [Status_changed TY_TASK_STATUS_PENDING,
                          Status_assigned TY_TASK_STATUS_READY,
                          Status_changed TY_TASK_STATUS_RUNNING, Run_called, Finalize_called,
                          Status_changed TY_TASK_STATUS_FINISHED]\<rparr>)
   \<and> status_history TY_TASK_STATUS_READY
         [Status_changed TY_TASK_STATUS_PENDING,
          Status_assigned TY_TASK_STATUS_READY,
          Status_changed TY_TASK_STATUS_RUNNING, Run_called, Finalize_called,
          Status_changed TY_TASK_STATUS_FINISHED]
       = [TY_TASK_STATUS_READY, TY_TASK_STATUS_PENDING, TY_TASK_STATUS_READY,
          TY_TASK_STATUS_RUNNING, TY_TASK_STATUS_FINISHED]
   \<and> status_rank TY_TASK_STATUS_READY < status_rank TY_TASK_STATUS_PENDING"
  by (simp add: fresh_task_def ty_task_new_def ty_pool_new_def ty_task_start_def
        start_thread_def change_status_def ty_task_ref_def
        run_task_def ty_task_unref_def ty_task_wait_def wait_for_status_def Let_def)













lemma word_succ_nonzero: "(x :: 32 word) < mx \<Longrightarrow> x + 1 \<noteq> 0"
proof
  assume lt: "x < mx" and z: "x + 1 = 0"
  from z have "x = - 1" by (simp add: add_eq_0_iff2)
  with lt show False by simp
qed

text \<open>
  The sibling path: in \<open>ty_pool_set_max_threads\<close>, with a worker already started, a
  failed \<open>start_thread\<close> is not an error, and the pending tasks stay in the list.
\<close>

lemma spawn_loop_recovers:
  "pool_started pool \<noteq> 0 \<Longrightarrow>
   fst (spawn_loop qs k spawn mx pool) \<in> {None, Some (Inr 0)}
   \<and> pool_pending_tasks (snd (spawn_loop qs k spawn mx pool)) = pool_pending_tasks pool"
proof (induction qs k spawn mx pool rule: spawn_loop.induct)
  case (1 k spawn mx pool)
  then show ?case by simp
next
  case (2 q qs k spawn mx pool)
  show ?case
  proof (cases "mx \<le> pool_started pool")
    case True
    then show ?thesis by simp
  next
    case False
    show ?thesis
    proof (cases "spawn k")
      case (Some e)
      with False "2.prems" show ?thesis by (simp add: start_thread_def)
    next
      case None
      let ?p1 = "pool\<lparr>pool_threads := pool_threads pool + 1,
                    pool_started := pool_started pool + 1,
                    pool_busy := pool_busy pool + 1\<rparr>"
      have st: "start_thread pool (spawn k) = Inr ?p1" using None by (simp add: start_thread_def)
      from False have "pool_started pool < mx" by simp
      then have "pool_started pool + 1 \<noteq> 0"
        by (rule word_succ_nonzero)
      then have "pool_started ?p1 \<noteq> 0" by simp
      from "2.IH" [OF False st this] False st show ?thesis by simp
    qed
  qed
qed

lemma set_max_threads_spawn_failure_recovered:
  assumes "pool_started pool \<noteq> 0"
  shows "fst (ty_pool_set_max_threads pool mx spawn) = Inr 0
         \<and> pool_pending_tasks (snd (ty_pool_set_max_threads pool mx spawn))
             = pool_pending_tasks pool"
  using spawn_loop_recovers [OF assms, of "pool_pending_tasks pool" 0 spawn mx]
  by (auto simp: ty_pool_set_max_threads_def split: prod.splits option.splits)

text \<open>
  C7. The specification has it that \<open>ty_task_start\<close> too reports success and leaves the task
  queued when the worker cannot be started while a worker exists. In a pool whose one
  worker is busy, \<open>ty_task_start\<close> returns the error of \<open>start_thread\<close>, and the task
  is not in the pending list.
\<close>

theorem task_start_spawn_failure_not_recovered:
  "pool_started busy_pool \<noteq> 0
   \<and> ty_task_start busy_pool fresh_task (Some TY_ERROR_SYSTEM)
       = Returns (Inl TY_ERROR_SYSTEM) busy_pool fresh_task
   \<and> task_ptr fresh_task \<notin> set (pool_pending_tasks busy_pool)"
  by (simp add: busy_pool_def ty_pool_new_def fresh_task_def ty_task_new_def
        ty_task_start_def start_thread_def)

end
